theory Spec2Isabelle
  imports Complex_Main "HOL-Library.Word" "HOL-Library.AList"
begin

section \<open>Python values shared by the modules\<close>

text \<open>
  Bytes objects are lists of 8-bit words. A Python \<open>str\<close> is a \<open>string\<close> holding the
  UTF-8 form of its code points, one \<open>char\<close> per byte. A lone surrogate, which Python
  puts into a file name that is not UTF-8 (\<open>surrogateescape\<close>), is held in the three-byte
  form \<open>ED A0..BF xx\<close> that well-formed UTF-8 excludes. \<open>bytes.decode()\<close> checks that the
  bytes are well-formed UTF-8 (RFC 3629, which is what CPython's strict decoder accepts).
  \<open>str.encode()\<close> raises \<open>UnicodeEncodeError\<close> on a lone surrogate, that is, exactly when
  the held bytes are not well-formed (\<open>encode_utf8\<close>). \<open>encode\<close> gives the held bytes as
  they are: it is \<open>str.encode()\<close> on a text without surrogates, such as the ASCII text
  that \<open>json.dumps\<close> writes.
\<close>

type_synonym byte = "8 word"

datatype error =
    OSError | SocketTimeout | ZeroDivisionError | TypeError | KeyError | AttributeError
  | JSONDecodeError | UnicodeDecodeError | UnicodeEncodeError | OverflowError | ValueError

definition encode :: "string \<Rightarrow> byte list" where
  "encode s = map (\<lambda>c. of_nat (of_char c)) s"

definition cont_byte :: "nat \<Rightarrow> bool" where
  "cont_byte b = (128 \<le> b \<and> b \<le> 191)"

fun utf8_valid :: "nat list \<Rightarrow> bool" where
  "utf8_valid [] = True"
| "utf8_valid (a # bs) =
     (if a < 128 then utf8_valid bs
      else if 194 \<le> a \<and> a \<le> 223 then
        (case bs of b # r \<Rightarrow> cont_byte b \<and> utf8_valid r | _ \<Rightarrow> False)
      else if 224 \<le> a \<and> a \<le> 239 then
        (case bs of
           b # c # r \<Rightarrow>
             (if a = 224 then 160 \<le> b \<and> b \<le> 191
              else if a = 237 then 128 \<le> b \<and> b \<le> 159
              else cont_byte b) \<and> cont_byte c \<and> utf8_valid r
         | _ \<Rightarrow> False)
      else if 240 \<le> a \<and> a \<le> 244 then
        (case bs of
           b # c # d # r \<Rightarrow>
             (if a = 240 then 144 \<le> b \<and> b \<le> 191
              else if a = 244 then 128 \<le> b \<and> b \<le> 143
              else cont_byte b) \<and> cont_byte c \<and> cont_byte d \<and> utf8_valid r
         | _ \<Rightarrow> False)
      else False)"

definition encodable :: "string \<Rightarrow> bool" where
  "encodable s = utf8_valid (map of_char s)"

definition encode_utf8 :: "string \<Rightarrow> error + byte list" where
  "encode_utf8 s = (if encodable s then Inr (encode s) else Inl UnicodeEncodeError)"

definition decode :: "byte list \<Rightarrow> error + string" where
  "decode bs =
     (if utf8_valid (map unat bs) then Inr (map (\<lambda>b. char_of (unat b)) bs)
      else Inl UnicodeDecodeError)"

text \<open>Decimal rendering of a non-negative integer, as an f-string prints it.\<close>

definition digit_char :: "nat \<Rightarrow> char" where
  "digit_char d = char_of (48 + d)"

function str_nat :: "nat \<Rightarrow> string" where
  "str_nat n = (if n < 10 then [digit_char n] else str_nat (n div 10) @ [digit_char (n mod 10)])"
  by pat_completeness auto
termination
  by (relation "measure id") auto

declare str_nat.simps [simp del]

text \<open>
  The values \<open>json.loads\<close> produces. A JSON object is a Python dict: an association list
  in insertion order whose keys are distinct. \<open>JNull\<close> is Python's \<open>None\<close>. JSON numbers
  with a fraction or an exponent (Python floats) are not modelled.
\<close>

datatype json =
    JNull | JBool bool | JInt int | JStr string | JList "json list"
  | JObj "(string \<times> json) list"

text \<open>Truthiness, as \<open>if not x\<close> reads it.\<close>

fun truthy :: "json \<Rightarrow> bool" where
  "truthy JNull = False"
| "truthy (JBool b) = b"
| "truthy (JInt i) = (i \<noteq> 0)"
| "truthy (JStr s) = (s \<noteq> [])"
| "truthy (JList xs) = (xs \<noteq> [])"
| "truthy (JObj kvs) = (kvs \<noteq> [])"

text \<open>
  \<open>x.get(k)\<close>: defined on dicts only; a missing key gives \<open>None\<close>. On any other value the
  attribute lookup raises.
\<close>

fun dict_get :: "json \<Rightarrow> string \<Rightarrow> error + json" where
  "dict_get (JObj kvs) k = (case map_of kvs k of None \<Rightarrow> Inr JNull | Some v \<Rightarrow> Inr v)"
| "dict_get _ k = Inl AttributeError"

text \<open>
  \<open>x[k]\<close> with a string key: \<open>KeyError\<close> on a dict without the key, \<open>TypeError\<close> on a
  value that cannot be indexed by a string (\<open>None\<close>, numbers, booleans, lists, strings).
\<close>

fun dict_item :: "json \<Rightarrow> string \<Rightarrow> error + json" where
  "dict_item (JObj kvs) k = (case map_of kvs k of None \<Rightarrow> Inl KeyError | Some v \<Rightarrow> Inr v)"
| "dict_item _ k = Inl TypeError"

text \<open>
  The library functions the program calls but does not define: the JSON codec, the
  digests of \<open>hashlib\<close> and the builtin \<open>int\<close> on a string. They are parameters of
  every function that uses them. \<open>json_loads\<close> returns \<open>Inl JSONDecodeError\<close> where
  \<open>json.loads\<close> raises, \<open>py_int\<close> returns \<open>Inl ValueError\<close> where \<open>int\<close> does.
\<close>

record pylib =
  json_loads :: "string \<Rightarrow> error + json"
  json_dumps :: "json \<Rightarrow> string"
  md5_hexdigest :: "byte list \<Rightarrow> string"
  sha256_hexdigest :: "byte list \<Rightarrow> string"
  py_int :: "string \<Rightarrow> error + int"

section \<open>The sender's file system\<close>

text \<open>
  A path maps to a file when \<open>os.path.exists\<close> holds. \<open>readable\<close> is whether
  \<open>open(path, 'rb')\<close> succeeds; \<open>st_size\<close> is the length of the content. The file system
  does not change during one call.
\<close>

record disk_file =
  content :: "byte list"
  readable :: bool

type_synonym filesystem = "string \<Rightarrow> disk_file option"

definition st_size :: "filesystem \<Rightarrow> string \<Rightarrow> nat" where
  "st_size fs p = (case fs p of None \<Rightarrow> 0 | Some f \<Rightarrow> length (content f))"

definition path_exists :: "filesystem \<Rightarrow> string \<Rightarrow> bool" where
  "path_exists fs p = (fs p \<noteq> None)"

definition os_stat_size :: "filesystem \<Rightarrow> string \<Rightarrow> error + nat" where
  "os_stat_size fs p = (if fs p = None then Inl OSError else Inr (st_size fs p))"

definition open_rb :: "filesystem \<Rightarrow> string \<Rightarrow> error + byte list" where
  "open_rb fs p =
     (case fs p of
        None \<Rightarrow> Inl OSError
      | Some f \<Rightarrow> if readable f then Inr (content f) else Inl OSError)"

definition basename :: "string \<Rightarrow> string" where
  "basename p = rev (takeWhile (\<lambda>c. c \<noteq> CHR ''/'') (rev p))"

text \<open>\<open>iter(lambda: f.read(n), b"")\<close>: the successive reads of \<open>n\<close> bytes up to end of file.\<close>

function read_chunks :: "nat \<Rightarrow> byte list \<Rightarrow> byte list list" where
  "read_chunks n bs =
     (if bs = [] \<or> n = 0 then [] else take n bs # read_chunks n (drop n bs))"
  by pat_completeness auto
termination
  by (relation "measure (\<lambda>(n, bs). length bs)") auto

declare read_chunks.simps [simp del]

section \<open>TransferSession (p2p\_manager.py)\<close>

text \<open>
  A line of the Kivy logger: its level and its text. The text of a caught exception, which
  some lines append after a colon, is not part of the entry.
\<close>

datatype level = Info | Warning | Error

type_synonym logline = "level \<times> string"

record file_info =
  m_path :: string
  m_name :: string
  m_size :: nat
  m_chunks :: nat
  m_checksum :: string

text \<open>
  \<open>file_metadata\<close> is a dict: insertion-ordered, and storing under a key that is present
  replaces the entry in place (\<open>AList.update\<close>). The fields \<open>received_chunks\<close>,
  \<open>peer_connection\<close> and \<open>data_channel\<close> are never read or written after construction and are
  left out.
\<close>

record transfer_session =
  session_id :: string
  files :: "string list"
  file_metadata :: "(string \<times> file_info) list"
  total_size :: nat
  transferred_size :: nat
  is_active :: bool

text \<open>
  \<open>_calculate_file_checksum\<close>: the digest, and the lines it logs. When the file cannot be
  opened it logs an error and returns the empty string.
\<close>

definition calculate_file_checksum ::
  "pylib \<Rightarrow> filesystem \<Rightarrow> string \<Rightarrow> string \<times> logline list" where
  "calculate_file_checksum L fs file_path =
     (case open_rb fs file_path of
        Inl e \<Rightarrow> ([], [(Error, ''Error calculating checksum for '' @ file_path)])
      | Inr bs \<Rightarrow> (md5_hexdigest L (concat (read_chunks 4096 bs)), []))"

text \<open>\<open>hashlib.md5(file_path.encode()).hexdigest()\<close>; \<open>encode\<close> may raise.\<close>

definition file_id_of :: "pylib \<Rightarrow> string \<Rightarrow> error + string" where
  "file_id_of L file_path =
     (case encode_utf8 file_path of
        Inl e \<Rightarrow> Inl e
      | Inr bs \<Rightarrow> Inr (md5_hexdigest L bs))"

text \<open>
  \<open>_calculate_metadata\<close>, with the log lines written so far. An exception ends the loop
  and leaves the constructor; the lines already logged remain.
\<close>

fun calculate_metadata ::
  "pylib \<Rightarrow> filesystem \<Rightarrow> string list \<Rightarrow> transfer_session \<Rightarrow> logline list \<Rightarrow>
     (error + transfer_session) \<times> logline list" where
  "calculate_metadata L fs [] s lg = (Inr s, lg)"
| "calculate_metadata L fs (file_path # rest) s lg =
     (if path_exists fs file_path then
        (case os_stat_size fs file_path of
           Inl e \<Rightarrow> (Inl e, lg)
         | Inr file_stat \<Rightarrow>
             (case file_id_of L file_path of
                Inl e \<Rightarrow> (Inl e, lg)
              | Inr file_id \<Rightarrow>
                  calculate_metadata L fs rest
                    (s\<lparr>file_metadata :=
                         AList.update file_id
                           \<lparr>m_path = file_path,
                            m_name = basename file_path,
                            m_size = file_stat,
                            m_chunks = file_stat div 8192 + 1,
                            m_checksum = fst (calculate_file_checksum L fs file_path)\<rparr>
                           (file_metadata s),
                       total_size := total_size s + file_stat\<rparr>)
                    (lg @ snd (calculate_file_checksum L fs file_path))))
      else calculate_metadata L fs rest s lg)"

definition TransferSession_init ::
  "pylib \<Rightarrow> filesystem \<Rightarrow> string \<Rightarrow> string list \<Rightarrow> logline list \<Rightarrow>
     (error + transfer_session) \<times> logline list" where
  "TransferSession_init L fs sid fl lg =
     (let s = \<lparr>session_id = sid, files = fl, file_metadata = [], total_size = 0,
                transferred_size = 0, is_active = False\<rparr>
      in if fl \<noteq> [] then calculate_metadata L fs fl s lg else (Inr s, lg))"

text \<open>
  The lines that the checksums of the listed files log: one error for every listed file
  that exists and cannot be opened, in the order of the list.
\<close>

definition checksum_lines :: "pylib \<Rightarrow> filesystem \<Rightarrow> string list \<Rightarrow> logline list" where
  "checksum_lines L fs fl =
     concat (map (\<lambda>p. snd (calculate_file_checksum L fs p)) (filter (path_exists fs) fl))"

section \<open>P2PManager: the session registry\<close>

text \<open>
  \<open>log\<close> is what \<open>create_session\<close>, \<open>cleanup_session\<close> and the discovery listener have
  written to the Kivy logger, in order; the lines of the transfer functions are not
  recorded.
\<close>

record manager =
  sessions :: "string \<Rightarrow> transfer_session option"
  local_ip :: string
  discovery_port :: nat
  transfer_port :: nat
  running :: bool
  log :: "logline list"

definition logger :: "level \<Rightarrow> string \<Rightarrow> manager \<Rightarrow> manager" where
  "logger lv msg M = M\<lparr>log := log M @ [(lv, msg)]\<rparr>"

definition create_session ::
  "pylib \<Rightarrow> filesystem \<Rightarrow> manager \<Rightarrow> string \<Rightarrow> string list \<Rightarrow> bool \<times> manager" where
  "create_session L fs M sid fl =
     (case TransferSession_init L fs sid fl (log M) of
        (Inr session, lg) \<Rightarrow>
          (True,
           logger Info (''P2P: Created session '' @ sid @ '' with '' @ str_nat (length fl) @ '' files'')
             (M\<lparr>sessions := (sessions M)(sid \<mapsto> session), log := lg\<rparr>))
      | (Inl e, lg) \<Rightarrow> (False, logger Error ''Error creating session'' (M\<lparr>log := lg\<rparr>)))"

definition cleanup_session :: "manager \<Rightarrow> string \<Rightarrow> manager" where
  "cleanup_session M sid =
     (if sessions M sid \<noteq> None then
        logger Info (''P2P: Cleaned up session '' @ sid) (M\<lparr>sessions := (sessions M)(sid := None)\<rparr>)
      else M)"

definition entry_of :: "pylib \<Rightarrow> filesystem \<Rightarrow> string \<Rightarrow> file_info" where
  "entry_of L fs p =
     \<lparr>m_path = p, m_name = basename p, m_size = st_size fs p,
      m_chunks = st_size fs p div 8192 + 1,
      m_checksum = fst (calculate_file_checksum L fs p)\<rparr>"

definition P2PManager_init :: "string \<Rightarrow> manager" where
  "P2PManager_init ip =
     \<lparr>sessions = (\<lambda>k. None), local_ip = ip, discovery_port = 45678, transfer_port = 45679,
      running = True, log = []\<rparr>"

section \<open>TCP sockets\<close>

text \<open>
  One end of a TCP connection. \<open>inbox\<close> holds the segments that will arrive, in order:
  one \<open>recv\<close> returns bytes of the first segment only, at most as many as it asks for, so
  a read can be shorter than requested although more bytes follow. When the inbox is
  used up, \<open>peer_closes\<close> says whether the peer has closed the stream (\<open>recv\<close> returns
  \<open>b''\<close>) or is silent (\<open>recv\<close> raises \<open>socket.timeout\<close>). \<open>recv_calls\<close> counts the
  calls of \<open>recv\<close>. \<open>sent\<close> is what \<open>sendall\<close> has written; \<open>send_limit\<close>, when given,
  is the number of bytes the connection carries before \<open>sendall\<close> raises.
\<close>

record tcp_sock =
  inbox :: "byte list list"
  peer_closes :: bool
  recv_calls :: nat
  sent :: "byte list"
  send_limit :: "nat option"
  closed :: bool

fun next_data :: "nat \<Rightarrow> byte list list \<Rightarrow> byte list \<times> byte list list" where
  "next_data n [] = ([], [])"
| "next_data n (seg # rest) =
     (if seg = [] then next_data n rest
      else (take n seg, if length seg \<le> n then rest else drop n seg # rest))"

text \<open>\<open>sock.recv(n)\<close>. The program never calls it with \<open>n = 0\<close> or on a closed socket.\<close>

definition recv :: "nat \<Rightarrow> tcp_sock \<Rightarrow> (error + byte list) \<times> tcp_sock" where
  "recv n sk =
     (if closed sk then (Inl OSError, sk)
      else
        (case next_data n (inbox sk) of
           (chunk, rest) \<Rightarrow>
             if chunk = [] \<and> rest = [] \<and> \<not> peer_closes sk
             then (Inl SocketTimeout, sk\<lparr>inbox := rest, recv_calls := recv_calls sk + 1\<rparr>)
             else (Inr chunk, sk\<lparr>inbox := rest, recv_calls := recv_calls sk + 1\<rparr>)))"

definition sendall :: "byte list \<Rightarrow> tcp_sock \<Rightarrow> error option \<times> tcp_sock" where
  "sendall bs sk =
     (if closed sk then (Some OSError, sk)
      else
        (case send_limit sk of
           None \<Rightarrow> (None, sk\<lparr>sent := sent sk @ bs\<rparr>)
         | Some c \<Rightarrow>
             if length (sent sk) + length bs \<le> c then (None, sk\<lparr>sent := sent sk @ bs\<rparr>)
             else (Some OSError, sk)))"

definition close_sock :: "tcp_sock \<Rightarrow> tcp_sock" where
  "close_sock sk = sk\<lparr>closed := True\<rparr>"

section \<open>Message framing: \_send\_json and \_receive\_json\<close>

text \<open>\<open>n.to_bytes(4, byteorder='big')\<close> and \<open>int.from_bytes(bs, byteorder='big')\<close>.\<close>

definition to_bytes4 :: "nat \<Rightarrow> error + byte list" where
  "to_bytes4 n =
     (if n < 2 ^ 32
      then Inr [of_nat (n div 2 ^ 24), of_nat (n div 2 ^ 16), of_nat (n div 2 ^ 8), of_nat n]
      else Inl OverflowError)"

definition from_bytes :: "byte list \<Rightarrow> nat" where
  "from_bytes bs = foldl (\<lambda>acc b. acc * 256 + unat b) 0 bs"

definition send_json :: "pylib \<Rightarrow> tcp_sock \<Rightarrow> json \<Rightarrow> error option \<times> tcp_sock" where
  "send_json L sk data =
     (let json_data = encode (json_dumps L data) in
      case to_bytes4 (length json_data) of
        Inl e \<Rightarrow> (Some e, sk)
      | Inr prefix \<Rightarrow>
          (case sendall prefix sk of
             (Some e, sk1) \<Rightarrow> (Some e, sk1)
           | (None, sk1) \<Rightarrow> sendall json_data sk1))"

text \<open>
  The payload loop of \<open>_receive_json\<close>. Its result is \<open>Inr None\<close> where the source returns
  \<open>None\<close> from inside the loop, \<open>Inr (Some json_data)\<close> when the loop ends normally.
\<close>

function receive_json_loop ::
  "nat \<Rightarrow> byte list \<Rightarrow> tcp_sock \<Rightarrow> (error + byte list option) \<times> tcp_sock" where
  "receive_json_loop len json_data sk =
     (if length json_data < len then
        (case recv (len - length json_data) sk of
           (Inl e, sk1) \<Rightarrow> (Inl e, sk1)
         | (Inr chunk, sk1) \<Rightarrow>
             if chunk = [] then (Inr None, sk1)
             else receive_json_loop len (json_data @ chunk) sk1)
      else (Inr (Some json_data), sk))"
  by pat_completeness auto
termination
  by (relation "measure (\<lambda>(len, json_data, sk). len - length json_data)")
     (auto simp: neq_Nil_conv)

declare receive_json_loop.simps [simp del]

definition receive_json :: "pylib \<Rightarrow> tcp_sock \<Rightarrow> (error + json) \<times> tcp_sock" where
  "receive_json L sk =
     (case recv 4 sk of
        (Inl e, sk1) \<Rightarrow> (Inl e, sk1)
      | (Inr length_bytes, sk1) \<Rightarrow>
          if length length_bytes < 4 then (Inr JNull, sk1)
          else
            (case receive_json_loop (from_bytes length_bytes) [] sk1 of
               (Inl e, sk2) \<Rightarrow> (Inl e, sk2)
             | (Inr None, sk2) \<Rightarrow> (Inr JNull, sk2)
             | (Inr (Some json_data), sk2) \<Rightarrow>
                 (case decode json_data of
                    Inl e \<Rightarrow> (Inl e, sk2)
                  | Inr txt \<Rightarrow> (json_loads L txt, sk2))))"

section \<open>Sending: \_send\_files\_direct and send\_files\<close>

text \<open>
  \<open>progress_callback\<close> is \<open>None\<close> (\<open>False\<close>) or a callable (\<open>True\<close>); a callable is taken
  not to raise, and its calls are recorded in order. The percentage is the exact quotient
  where Python computes a float. \<open>a / b\<close> raises when \<open>b\<close> is zero.
\<close>

definition progress_pct :: "nat \<Rightarrow> nat \<Rightarrow> error + rat" where
  "progress_pct moved whole =
     (if whole = 0 then Inl ZeroDivisionError
      else Inr ((of_nat moved / of_nat whole) * 100))"

record send_state =
  ss_session :: transfer_session
  ss_sock :: tcp_sock
  ss_progress :: "(rat \<times> string) list"

definition add_transferred :: "nat \<Rightarrow> transfer_session \<Rightarrow> transfer_session" where
  "add_transferred n s = s\<lparr>transferred_size := transferred_size s + n\<rparr>"

text \<open>
  The \<open>while bytes_sent < file_size\<close> loop over one open file; \<open>unread\<close> is what the file
  object has not yet returned, so \<open>f.read(8192)\<close> is \<open>take 8192 unread\<close>.
\<close>

function send_file_loop ::
  "bool \<Rightarrow> string \<Rightarrow> nat \<Rightarrow> byte list \<Rightarrow> nat \<Rightarrow> send_state \<Rightarrow> error option \<times> send_state" where
  "send_file_loop cb nm file_size unread bytes_sent st =
     (if bytes_sent < file_size then
        (if take 8192 unread = [] then (None, st)
         else
           (case sendall (take 8192 unread) (ss_sock st) of
              (Some e, sk) \<Rightarrow> (Some e, st\<lparr>ss_sock := sk\<rparr>)
            | (None, sk) \<Rightarrow>
                (if cb then
                   (case progress_pct
                           (transferred_size (ss_session st) + length (take 8192 unread))
                           (total_size (ss_session st)) of
                      Inl e \<Rightarrow>
                        (Some e,
                         st\<lparr>ss_sock := sk,
                            ss_session := add_transferred (length (take 8192 unread)) (ss_session st)\<rparr>)
                    | Inr progress \<Rightarrow>
                        send_file_loop cb nm file_size (drop 8192 unread)
                          (bytes_sent + length (take 8192 unread))
                          (st\<lparr>ss_sock := sk,
                              ss_session := add_transferred (length (take 8192 unread)) (ss_session st),
                              ss_progress := ss_progress st @ [(progress, ''Sending '' @ nm)]\<rparr>))
                 else
                   send_file_loop cb nm file_size (drop 8192 unread)
                     (bytes_sent + length (take 8192 unread))
                     (st\<lparr>ss_sock := sk,
                         ss_session := add_transferred (length (take 8192 unread)) (ss_session st)\<rparr>))))
      else (None, st))"
  by pat_completeness auto
termination
  by (relation "measure (\<lambda>(cb, nm, file_size, unread, bytes_sent, st). length unread)")
     (auto simp: neq_Nil_conv)

declare send_file_loop.simps [simp del]

text \<open>The \<open>for file_id, file_info in session.file_metadata.items()\<close> loop.\<close>

fun send_files_loop ::
  "bool \<Rightarrow> filesystem \<Rightarrow> (string \<times> file_info) list \<Rightarrow> send_state \<Rightarrow> error option \<times> send_state" where
  "send_files_loop cb fs [] st = (None, st)"
| "send_files_loop cb fs ((file_id, info) # rest) st =
     (case (if cb then
              (case progress_pct (transferred_size (ss_session st)) (total_size (ss_session st)) of
                 Inl e \<Rightarrow> Inl e
               | Inr pct \<Rightarrow> Inr (st\<lparr>ss_progress := ss_progress st @ [(pct, ''Sending '' @ m_name info)]\<rparr>))
            else Inr st) of
        Inl e \<Rightarrow> (Some e, st)
      | Inr st1 \<Rightarrow>
          (case open_rb fs (m_path info) of
             Inl e \<Rightarrow> (Some e, st1)
           | Inr bs \<Rightarrow>
               (case send_file_loop cb (m_name info) (m_size info) bs 0 st1 of
                  (Some e, st2) \<Rightarrow> (Some e, st2)
                | (None, st2) \<Rightarrow> send_files_loop cb fs rest st2)))"

text \<open>
  What the sender's network does: whether \<open>bind\<close> succeeds, and the connection \<open>accept\<close>
  returns within its 30 seconds (\<open>None\<close>: \<open>socket.timeout\<close>).
\<close>

record send_env =
  bind_ok :: bool
  accept_peer :: "tcp_sock option"

record send_outcome =
  returned :: bool
  session_after :: transfer_session
  client_socket :: "tcp_sock option"
  server_closed :: bool
  progress_calls :: "(rat \<times> string) list"

definition info_json :: "file_info \<Rightarrow> json" where
  "info_json m =
     JObj [(''path'', JStr (m_path m)), (''name'', JStr (m_name m)), (''size'', JInt (int (m_size m))),
           (''chunks'', JInt (int (m_chunks m))), (''checksum'', JStr (m_checksum m))]"

definition session_metadata :: "transfer_session \<Rightarrow> json" where
  "session_metadata session =
     JObj [(''session_id'', JStr (session_id session)),
           (''files'', JObj (map (\<lambda>(file_id, m). (file_id, info_json m)) (file_metadata session))),
           (''total_size'', JInt (int (total_size session)))]"

text \<open>
  An exception inside the inner \<open>try\<close> is caught by \<open>except socket.timeout\<close>, which closes
  the listening socket, or else by the outer \<open>except Exception\<close>, which closes nothing.
\<close>

definition send_failed ::
  "error \<Rightarrow> transfer_session \<Rightarrow> tcp_sock \<Rightarrow> (rat \<times> string) list \<Rightarrow> send_outcome" where
  "send_failed e session sk calls =
     \<lparr>returned = False, session_after = session, client_socket = Some sk,
      server_closed = (e = SocketTimeout), progress_calls = calls\<rparr>"

definition send_files_direct ::
  "pylib \<Rightarrow> filesystem \<Rightarrow> send_env \<Rightarrow> transfer_session \<Rightarrow> bool \<Rightarrow> send_outcome" where
  "send_files_direct L fs env session cb =
     (if bind_ok env then
        (case accept_peer env of
           None \<Rightarrow>
             \<lparr>returned = False, session_after = session, client_socket = None,
              server_closed = True, progress_calls = []\<rparr>
         | Some client \<Rightarrow>
             (case send_json L client (session_metadata session) of
                (Some e, sk) \<Rightarrow> send_failed e session sk []
              | (None, sk) \<Rightarrow>
                  (case send_files_loop cb fs (file_metadata session)
                          \<lparr>ss_session = session, ss_sock = sk, ss_progress = []\<rparr> of
                     (Some e, st) \<Rightarrow> send_failed e (ss_session st) (ss_sock st) (ss_progress st)
                   | (None, st) \<Rightarrow>
                       \<lparr>returned = True, session_after = ss_session st,
                        client_socket = Some (close_sock (ss_sock st)),
                        server_closed = True, progress_calls = ss_progress st\<rparr>)))
      else
        \<lparr>returned = False, session_after = session, client_socket = None,
         server_closed = False, progress_calls = []\<rparr>)"

text \<open>The WebRTC transport is a placeholder that calls the direct one.\<close>

definition send_files_webrtc ::
  "pylib \<Rightarrow> filesystem \<Rightarrow> send_env \<Rightarrow> transfer_session \<Rightarrow> bool \<Rightarrow> send_outcome" where
  "send_files_webrtc L fs env session cb = send_files_direct L fs env session cb"

text \<open>
  \<open>send_files\<close> looks the session up and sends it. The session object in the registry
  is the one the transfer updates, so the registry holds \<open>session_after\<close> afterwards.
  \<open>webrtc\<close> is the module constant \<open>WEBRTC_AVAILABLE\<close>. The result is \<open>None\<close> outcome when
  the session is not registered (the call returns \<open>False\<close> before any socket exists).
\<close>

definition send_files ::
  "pylib \<Rightarrow> bool \<Rightarrow> filesystem \<Rightarrow> send_env \<Rightarrow> manager \<Rightarrow> string \<Rightarrow> bool \<Rightarrow>
     bool \<times> manager \<times> send_outcome option" where
  "send_files L webrtc fs env M sid cb =
     (case sessions M sid of
        None \<Rightarrow> (False, M, None)
      | Some session \<Rightarrow>
          (let out = (if webrtc then send_files_webrtc L fs env session cb
                      else send_files_direct L fs env session cb)
           in (returned out, M\<lparr>sessions := (sessions M)(sid \<mapsto> session_after out)\<rparr>, Some out)))"

section \<open>Discovery: the client\<close>

text \<open>
  The receiver's surroundings: whether the broadcast \<open>sendto\<close> succeeds, the datagram that
  answers within the timeout (\<open>None\<close>: \<open>socket.timeout\<close>), the connection \<open>connect\<close>
  gives for a host and port (\<open>None\<close>: it raises), whether \<open>mkdir\<close> succeeds, whether
  \<open>open(file_path, 'wb')\<close> succeeds for a directory and a file name, and the files at the
  destination before the call. A destination file is named by the pair of the download
  directory and the file name that \<open>download_path / file_name\<close> joins.
\<close>

record recv_env =
  udp_sendto_ok :: bool
  udp_reply :: "byte list option"
  tcp_connect :: "string \<Rightarrow> int \<Rightarrow> tcp_sock option"
  mkdir_ok :: bool
  open_wb_ok :: "string \<Rightarrow> string \<Rightarrow> bool"
  disk :: "string \<times> string \<Rightarrow> byte list option"

text \<open>
  The socket \<open>discover_session\<close> creates: its options, the \<open>sendto\<close> calls it made
  (payload, host, port), the number of \<open>recvfrom\<close> calls, and whether it was closed.
\<close>

record udp_client =
  u_broadcast :: bool
  u_timeout :: nat
  u_sendto_calls :: "(byte list \<times> string \<times> nat) list"
  u_recvfrom_calls :: nat
  u_closed :: bool

text \<open>
  The test on the reply: \<open>Inr (Some endpoint)\<close> when the \<open>if\<close> holds, \<open>Inr None\<close> when
  it does not, \<open>Inl\<close> when \<open>response.get\<close> raises because the reply is not a dict.
\<close>

definition response_endpoint :: "json \<Rightarrow> string \<Rightarrow> error + json option" where
  "response_endpoint response sid =
     (case dict_get response ''type'' of
        Inl e \<Rightarrow> Inl e
      | Inr ty \<Rightarrow>
          if ty = JStr ''session_response'' then
            (case dict_get response ''session_id'' of
               Inl e \<Rightarrow> Inl e
             | Inr rs \<Rightarrow>
                 if rs = JStr sid then
                   (case dict_get response ''endpoint'' of
                      Inl e \<Rightarrow> Inl e
                    | Inr endpoint \<Rightarrow> Inr (Some endpoint))
                 else Inr None)
          else Inr None)"

definition discovery_msg :: "string \<Rightarrow> json" where
  "discovery_msg sid = JObj [(''type'', JStr ''session_discovery''), (''session_id'', JStr sid)]"

text \<open>
  The result is the returned endpoint (\<open>JNull\<close> for \<open>None\<close>) and the socket as the call
  leaves it. \<open>recvfrom(1024)\<close> keeps the first 1024 bytes of a longer datagram. The inner
  handlers catch \<open>socket.timeout\<close> and \<open>JSONDecodeError\<close> and fall through to
  \<open>sock.close()\<close>; any other exception reaches the outer handler, which only returns.
\<close>

definition discover_session :: "pylib \<Rightarrow> recv_env \<Rightarrow> manager \<Rightarrow> string \<Rightarrow> json \<times> udp_client" where
  "discover_session L env M sid =
     (let msg_data = encode (json_dumps L (discovery_msg sid));
          sock = \<lparr>u_broadcast = True, u_timeout = 5,
                  u_sendto_calls = [(msg_data, ''<broadcast>'', discovery_port M)],
                  u_recvfrom_calls = 0, u_closed = False\<rparr>
      in if udp_sendto_ok env then
           (case udp_reply env of
              None \<Rightarrow> (JNull, sock\<lparr>u_recvfrom_calls := 1, u_closed := True\<rparr>)
            | Some dgram \<Rightarrow>
                (case decode (take 1024 dgram) of
                   Inl e \<Rightarrow> (JNull, sock\<lparr>u_recvfrom_calls := 1\<rparr>)
                 | Inr txt \<Rightarrow>
                     (case json_loads L txt of
                        Inl e \<Rightarrow> (JNull, sock\<lparr>u_recvfrom_calls := 1, u_closed := (e = JSONDecodeError)\<rparr>)
                      | Inr response \<Rightarrow>
                          (case response_endpoint response sid of
                             Inl e \<Rightarrow> (JNull, sock\<lparr>u_recvfrom_calls := 1\<rparr>)
                           | Inr None \<Rightarrow> (JNull, sock\<lparr>u_recvfrom_calls := 1, u_closed := True\<rparr>)
                           | Inr (Some endpoint) \<Rightarrow>
                               (endpoint, sock\<lparr>u_recvfrom_calls := 1, u_closed := True\<rparr>)))))
         else (JNull, sock))"

section \<open>Receiving: \_receive\_files\_direct and receive\_files\<close>

text \<open>
  A JSON number used as a Python integer; \<open>bool\<close> is a subclass of \<open>int\<close>. Comparing or
  subtracting an \<open>int\<close> with any other JSON value raises \<open>TypeError\<close>.
\<close>

fun as_int :: "json \<Rightarrow> error + int" where
  "as_int (JInt n) = Inr n"
| "as_int (JBool b) = Inr (if b then 1 else 0)"
| "as_int _ = Inl TypeError"

definition recv_pct :: "nat \<Rightarrow> json \<Rightarrow> error + rat" where
  "recv_pct received_size total_sz =
     (case as_int total_sz of
        Inl e \<Rightarrow> Inl e
      | Inr n \<Rightarrow>
          if n = 0 then Inl ZeroDivisionError
          else Inr ((of_nat received_size / of_int n) * 100))"

fun dict_items :: "json \<Rightarrow> error + (string \<times> json) list" where
  "dict_items (JObj kvs) = Inr kvs"
| "dict_items _ = Inl AttributeError"

text \<open>\<open>host, port = endpoint.split(':')\<close>: exactly one colon, or \<open>ValueError\<close>.\<close>

definition split_endpoint :: "string \<Rightarrow> error + string \<times> string" where
  "split_endpoint s =
     (case dropWhile (\<lambda>c. c \<noteq> CHR '':'') s of
        [] \<Rightarrow> Inl ValueError
      | c # port \<Rightarrow>
          if CHR '':'' \<in> set port then Inl ValueError
          else Inr (takeWhile (\<lambda>c. c \<noteq> CHR '':'') s, port))"

text \<open>
  \<open>if not metadata or metadata.get('session_id') != session_id\<close>: \<open>Inr True\<close> when the
  branch is taken. The right operand is evaluated only for a truthy \<open>metadata\<close>.
\<close>

definition metadata_rejected :: "json \<Rightarrow> string \<Rightarrow> error + bool" where
  "metadata_rejected metadata sid =
     (if truthy metadata then
        (case dict_get metadata ''session_id'' of
           Inl e \<Rightarrow> Inl e
         | Inr v \<Rightarrow> Inr (v \<noteq> JStr sid))
      else Inr True)"

record recv_state =
  rs_sock :: tcp_sock
  rs_disk :: "string \<times> string \<Rightarrow> byte list option"
  rs_received :: nat
  rs_progress :: "(rat \<times> string) list"

definition write_chunk ::
  "string \<times> string \<Rightarrow> byte list \<Rightarrow> (string \<times> string \<Rightarrow> byte list option) \<Rightarrow>
     (string \<times> string \<Rightarrow> byte list option)" where
  "write_chunk key chunk d = d(key \<mapsto> (case d key of None \<Rightarrow> [] | Some old \<Rightarrow> old) @ chunk)"

text \<open>The \<open>while bytes_received < file_size\<close> loop over one destination file.\<close>

function recv_file_loop ::
  "bool \<Rightarrow> string \<Rightarrow> int \<Rightarrow> json \<Rightarrow> string \<times> string \<Rightarrow> nat \<Rightarrow> recv_state \<Rightarrow>
     error option \<times> recv_state" where
  "recv_file_loop cb nm file_size total_sz key bytes_received st =
     (if int bytes_received < file_size then
        (case recv (nat (min 8192 (file_size - int bytes_received))) (rs_sock st) of
           (Inl e, sk) \<Rightarrow> (Some e, st\<lparr>rs_sock := sk\<rparr>)
         | (Inr chunk, sk) \<Rightarrow>
             if chunk = [] then (None, st\<lparr>rs_sock := sk\<rparr>)
             else if cb then
               (case recv_pct (rs_received st + length chunk) total_sz of
                  Inl e \<Rightarrow>
                    (Some e,
                     st\<lparr>rs_sock := sk, rs_disk := write_chunk key chunk (rs_disk st),
                        rs_received := rs_received st + length chunk\<rparr>)
                | Inr progress \<Rightarrow>
                    recv_file_loop cb nm file_size total_sz key (bytes_received + length chunk)
                      (st\<lparr>rs_sock := sk, rs_disk := write_chunk key chunk (rs_disk st),
                          rs_received := rs_received st + length chunk,
                          rs_progress := rs_progress st @ [(progress, ''Receiving '' @ nm)]\<rparr>))
             else
               recv_file_loop cb nm file_size total_sz key (bytes_received + length chunk)
                 (st\<lparr>rs_sock := sk, rs_disk := write_chunk key chunk (rs_disk st),
                     rs_received := rs_received st + length chunk\<rparr>))
      else (None, st))"
  by pat_completeness auto
termination
  by (relation "measure (\<lambda>(cb, nm, file_size, total_sz, key, bytes_received, st).
                  nat (file_size - int bytes_received))")
     (auto simp: neq_Nil_conv)

declare recv_file_loop.simps [simp del]

text \<open>
  The \<open>for file_id, file_info in files_info.items()\<close> loop. A name that is not a string
  makes \<open>download_path / file_name\<close> raise; a size that is not an integer makes the first
  comparison of the inner loop raise, after the file has been created.
\<close>

fun recv_files_loop ::
  "bool \<Rightarrow> recv_env \<Rightarrow> string \<Rightarrow> json \<Rightarrow> (string \<times> json) list \<Rightarrow> recv_state \<Rightarrow>
     error option \<times> recv_state" where
  "recv_files_loop cb env dir total_sz [] st = (None, st)"
| "recv_files_loop cb env dir total_sz ((file_id, file_info) # rest) st =
     (case dict_item file_info ''name'' of
        Inl e \<Rightarrow> (Some e, st)
      | Inr file_name \<Rightarrow>
          (case dict_item file_info ''size'' of
             Inl e \<Rightarrow> (Some e, st)
           | Inr file_size \<Rightarrow>
               (case file_name of
                  JStr nm \<Rightarrow>
                    (case (if cb then
                             (case recv_pct (rs_received st) total_sz of
                                Inl e \<Rightarrow> Inl e
                              | Inr pct \<Rightarrow>
                                  Inr (st\<lparr>rs_progress := rs_progress st @ [(pct, ''Receiving '' @ nm)]\<rparr>))
                           else Inr st) of
                       Inl e \<Rightarrow> (Some e, st)
                     | Inr st1 \<Rightarrow>
                         if open_wb_ok env dir nm then
                           (case as_int file_size of
                              Inl e \<Rightarrow> (Some e, st1\<lparr>rs_disk := (rs_disk st1)((dir, nm) \<mapsto> [])\<rparr>)
                            | Inr sz \<Rightarrow>
                                (case recv_file_loop cb nm sz total_sz (dir, nm) 0
                                        (st1\<lparr>rs_disk := (rs_disk st1)((dir, nm) \<mapsto> [])\<rparr>) of
                                   (Some e, st2) \<Rightarrow> (Some e, st2)
                                 | (None, st2) \<Rightarrow> recv_files_loop cb env dir total_sz rest st2))
                         else (Some OSError, st1))
                | _ \<Rightarrow> (Some TypeError, st))))"

record recv_outcome =
  r_returned :: bool
  r_sock :: "tcp_sock option"
  r_disk :: "string \<times> string \<Rightarrow> byte list option"
  r_progress :: "(rat \<times> string) list"

definition recv_failed :: "recv_env \<Rightarrow> tcp_sock option \<Rightarrow> recv_outcome" where
  "recv_failed env sk = \<lparr>r_returned = False, r_sock = sk, r_disk = disk env, r_progress = []\<rparr>"

definition receive_files_direct ::
  "pylib \<Rightarrow> recv_env \<Rightarrow> string \<Rightarrow> string \<Rightarrow> json \<Rightarrow> bool \<Rightarrow> recv_outcome" where
  "receive_files_direct L env sid download_dir endpoint cb =
     (case endpoint of
        JStr ep \<Rightarrow>
          (case split_endpoint ep of
             Inl e \<Rightarrow> recv_failed env None
           | Inr (host, port_text) \<Rightarrow>
               (case py_int L port_text of
                  Inl e \<Rightarrow> recv_failed env None
                | Inr port \<Rightarrow>
                    (case tcp_connect env host port of
                       None \<Rightarrow> recv_failed env None
                     | Some client \<Rightarrow>
                         (case receive_json L client of
                            (Inl e, sk) \<Rightarrow> recv_failed env (Some sk)
                          | (Inr metadata, sk) \<Rightarrow>
                              (case metadata_rejected metadata sid of
                                 Inl e \<Rightarrow> recv_failed env (Some sk)
                               | Inr True \<Rightarrow> recv_failed env (Some (close_sock sk))
                               | Inr False \<Rightarrow>
                                   (case dict_item metadata ''files'' of
                                      Inl e \<Rightarrow> recv_failed env (Some sk)
                                    | Inr files_info \<Rightarrow>
                                        (case dict_item metadata ''total_size'' of
                                           Inl e \<Rightarrow> recv_failed env (Some sk)
                                         | Inr total_sz \<Rightarrow>
                                             if mkdir_ok env then
                                               (case dict_items files_info of
                                                  Inl e \<Rightarrow> recv_failed env (Some sk)
                                                | Inr items \<Rightarrow>
                                                    (case recv_files_loop cb env download_dir total_sz items
                                                            \<lparr>rs_sock = sk, rs_disk = disk env,
                                                             rs_received = 0, rs_progress = []\<rparr> of
                                                       (Some e, st) \<Rightarrow>
                                                         \<lparr>r_returned = False, r_sock = Some (rs_sock st),
                                                          r_disk = rs_disk st, r_progress = rs_progress st\<rparr>
                                                     | (None, st) \<Rightarrow>
                                                         \<lparr>r_returned = True,
                                                          r_sock = Some (close_sock (rs_sock st)),
                                                          r_disk = rs_disk st, r_progress = rs_progress st\<rparr>))
                                             else recv_failed env (Some sk))))))))
      | _ \<Rightarrow> recv_failed env None)"

definition receive_files_webrtc ::
  "pylib \<Rightarrow> recv_env \<Rightarrow> string \<Rightarrow> string \<Rightarrow> json \<Rightarrow> bool \<Rightarrow> recv_outcome" where
  "receive_files_webrtc L env sid download_dir endpoint cb =
     receive_files_direct L env sid download_dir endpoint cb"

definition receive_files ::
  "pylib \<Rightarrow> bool \<Rightarrow> recv_env \<Rightarrow> manager \<Rightarrow> string \<Rightarrow> string \<Rightarrow> bool \<Rightarrow> recv_outcome" where
  "receive_files L webrtc env M sid download_dir cb =
     (case discover_session L env M sid of
        (endpoint, usock) \<Rightarrow>
          if truthy endpoint then
            (if webrtc then receive_files_webrtc L env sid download_dir endpoint cb
             else receive_files_direct L env sid download_dir endpoint cb)
          else recv_failed env None)"

section \<open>Discovery: the server\<close>

text \<open>
  \<open>session_id in self.sessions\<close> for a JSON value: lists and dicts are unhashable and
  raise \<open>TypeError\<close>; the registry's keys are strings, so no other value is a key.
\<close>

fun session_registered :: "manager \<Rightarrow> json \<Rightarrow> error + bool" where
  "session_registered M (JStr s) = Inr (sessions M s \<noteq> None)"
| "session_registered M (JList xs) = Inl TypeError"
| "session_registered M (JObj kvs) = Inl TypeError"
| "session_registered M _ = Inr False"

definition session_response :: "manager \<Rightarrow> json \<Rightarrow> json" where
  "session_response M sid_value =
     JObj [(''type'', JStr ''session_response''), (''session_id'', sid_value),
           (''endpoint'', JStr (local_ip M @ '':'' @ str_nat (transfer_port M)))]"

text \<open>
  \<open>_handle_discovery_message\<close>: \<open>Inr (Some datagram)\<close> when it sends a reply, \<open>Inr None\<close>
  when it returns without sending, \<open>Inl e\<close> when an exception leaves it. Only
  \<open>JSONDecodeError\<close> is caught. \<open>sendto\<close> on the bound socket is taken to succeed.
\<close>

definition handle_discovery_message ::
  "pylib \<Rightarrow> manager \<Rightarrow> string \<Rightarrow> string \<times> nat \<Rightarrow> error + (byte list \<times> string \<times> nat) option" where
  "handle_discovery_message L M message addr =
     (case json_loads L message of
        Inl e \<Rightarrow> (if e = JSONDecodeError then Inr None else Inl e)
      | Inr data \<Rightarrow>
          (case dict_get data ''type'' of
             Inl e \<Rightarrow> Inl e
           | Inr ty \<Rightarrow>
               if ty = JStr ''session_discovery'' then
                 (case dict_get data ''session_id'' of
                    Inl e \<Rightarrow> Inl e
                  | Inr sid_value \<Rightarrow>
                      (case session_registered M sid_value of
                         Inl e \<Rightarrow> Inl e
                       | Inr registered \<Rightarrow>
                           if registered
                           then Inr (Some (encode (json_dumps L (session_response M sid_value)), addr))
                           else Inr None))
               else Inr None))"

text \<open>
  The listener thread, run over what its socket meets: a datagram from an address, a
  receive timeout, or \<open>stop()\<close> being called by the owner. The registry does not change
  while the listed events are handled. \<open>w_alive\<close> is whether the loop is still running.
\<close>

datatype udp_event = Datagram "byte list" "string \<times> nat" | RecvTimeout | StopCalled

record worker_state =
  w_manager :: manager
  w_replies :: "(byte list \<times> string \<times> nat) list"
  w_alive :: bool

fun discovery_worker :: "pylib \<Rightarrow> udp_event list \<Rightarrow> worker_state \<Rightarrow> worker_state" where
  "discovery_worker L [] st = st"
| "discovery_worker L (ev # evs) st =
     (if w_alive st then
        (case ev of
           RecvTimeout \<Rightarrow> discovery_worker L evs st
         | StopCalled \<Rightarrow>
             st\<lparr>w_alive := False, w_manager := (w_manager st)\<lparr>running := False\<rparr>\<rparr>
         | Datagram data addr \<Rightarrow>
             (case decode (take 1024 data) of
                Inl e \<Rightarrow>
                  st\<lparr>w_alive := False,
                     w_manager := logger Error ''Discovery service error'' (w_manager st)\<rparr>
              | Inr message \<Rightarrow>
                  (case handle_discovery_message L (w_manager st) message addr of
                     Inl e \<Rightarrow>
                       st\<lparr>w_alive := False,
                          w_manager := logger Error ''Discovery service error'' (w_manager st)\<rparr>
                   | Inr None \<Rightarrow> discovery_worker L evs st
                   | Inr (Some reply) \<Rightarrow>
                       discovery_worker L evs (st\<lparr>w_replies := w_replies st @ [reply]\<rparr>))))
      else st)"

definition start_discovery_service :: "manager \<Rightarrow> worker_state" where
  "start_discovery_service M = \<lparr>w_manager = M\<lparr>running := True\<rparr>, w_replies = [], w_alive = True\<rparr>"

section \<open>Checksum verification (file\_manager.py, utils.py)\<close>

text \<open>
  \<open>FileInfo\<close> with the fields verification reads; \<open>mime_type\<close> and \<open>last_modified\<close> are
  left out. The checksum is computed only for an existing file under 100 MiB and is the
  empty string otherwise, or when the file cannot be read.
\<close>

record FileInfo =
  fi_path :: string
  fi_name :: string
  fi_size :: nat
  fi_checksum :: string

definition FileInfo_calculate_checksum :: "pylib \<Rightarrow> filesystem \<Rightarrow> string \<Rightarrow> string" where
  "FileInfo_calculate_checksum L fs p =
     (case open_rb fs p of
        Inl e \<Rightarrow> []
      | Inr bs \<Rightarrow> md5_hexdigest L (concat (read_chunks 4096 bs)))"

definition FileInfo_init :: "pylib \<Rightarrow> filesystem \<Rightarrow> string \<Rightarrow> FileInfo" where
  "FileInfo_init L fs p =
     (if path_exists fs p then
        (case os_stat_size fs p of
           Inl e \<Rightarrow> \<lparr>fi_path = p, fi_name = basename p, fi_size = 0, fi_checksum = []\<rparr>
         | Inr sz \<Rightarrow>
             \<lparr>fi_path = p, fi_name = basename p, fi_size = sz,
              fi_checksum = (if sz < 100 * 1024 * 1024 then FileInfo_calculate_checksum L fs p else [])\<rparr>)
      else \<lparr>fi_path = p, fi_name = basename p, fi_size = 0, fi_checksum = []\<rparr>)"

definition verify_file_integrity :: "pylib \<Rightarrow> filesystem \<Rightarrow> string \<Rightarrow> string \<Rightarrow> bool" where
  "verify_file_integrity L fs file_path expected_checksum =
     (if expected_checksum = [] then True
      else fi_checksum (FileInfo_init L fs file_path) = expected_checksum)"

text \<open>\<open>str.lower\<close> on ASCII letters; other characters are left as they are.\<close>

definition lower_char :: "char \<Rightarrow> char" where
  "lower_char c =
     (if 65 \<le> (of_char c :: nat) \<and> (of_char c :: nat) \<le> 90 then char_of ((of_char c :: nat) + 32)
      else c)"

definition lower :: "string \<Rightarrow> string" where
  "lower s = map lower_char s"

definition verify_checksum :: "pylib \<Rightarrow> filesystem \<Rightarrow> string \<Rightarrow> string \<Rightarrow> string \<Rightarrow> bool" where
  "verify_checksum L fs file_path expected_checksum algorithm =
     (if algorithm = ''md5'' then
        (case open_rb fs file_path of
           Inl e \<Rightarrow> False
         | Inr bs \<Rightarrow>
             lower (md5_hexdigest L (concat (read_chunks 4096 bs))) = lower expected_checksum)
      else if algorithm = ''sha256'' then
        (case open_rb fs file_path of
           Inl e \<Rightarrow> False
         | Inr bs \<Rightarrow>
             lower (sha256_hexdigest L (concat (read_chunks 4096 bs))) = lower expected_checksum)
      else False)"

section \<open>A concrete library and concrete surroundings\<close>

text \<open>
  Instances of the library parameters, used where a statement is evaluated on concrete
  data. \<open>dumps_ascii\<close> writes what \<open>json.dumps\<close> writes for values whose strings are
  printable ASCII without quotation mark or backslash. \<open>loads_known\<close> reads the texts of
  a given list of values and rejects every other text. \<open>md5_known\<close> and \<open>sha256_known\<close>
  hold the digests of the inputs used below. \<open>int_decimal\<close> reads an unsigned decimal
  numeral.
\<close>

fun join_comma :: "string list \<Rightarrow> string" where
  "join_comma [] = []"
| "join_comma [x] = x"
| "join_comma (x # y # ys) = x @ '', '' @ join_comma (y # ys)"

definition quoted :: "string \<Rightarrow> string" where
  "quoted s = [CHR 0x22] @ s @ [CHR 0x22]"

fun dumps_ascii :: "json \<Rightarrow> string" where
  "dumps_ascii JNull = ''null''"
| "dumps_ascii (JBool b) = (if b then ''true'' else ''false'')"
| "dumps_ascii (JInt i) = (if i < 0 then ''-'' @ str_nat (nat (- i)) else str_nat (nat i))"
| "dumps_ascii (JStr s) = quoted s"
| "dumps_ascii (JList xs) = ''['' @ join_comma (map dumps_ascii xs) @ '']''"
| "dumps_ascii (JObj kvs) =
     ''{'' @ join_comma (map (\<lambda>kv. quoted (fst kv) @ '': '' @ dumps_ascii (snd kv)) kvs) @ ''}''"

definition loads_known :: "json list \<Rightarrow> string \<Rightarrow> error + json" where
  "loads_known docs s =
     (case find (\<lambda>v. dumps_ascii v = s) docs of
        Some v \<Rightarrow> Inr v
      | None \<Rightarrow> Inl JSONDecodeError)"

definition md5_known :: "byte list \<Rightarrow> string" where
  "md5_known bs =
     (if bs = [] then ''d41d8cd98f00b204e9800998ecf8427e''
      else if bs = encode ''abc'' then ''900150983cd24fb0d6963f7d28e17f72''
      else if bs = encode ''/data/a.txt'' then ''e5197d396ac035e03114a12207bf78b6''
      else if bs = encode ''/data/b.bin'' then ''683667a24a8a97c424a5a00260e1fa0c''
      else if bs = encode ''/data/empty.txt'' then ''cc7766e04e52cfe773ca8a9e53092e2d''
      else if bs = encode ''/data/c.txt'' then ''5093c25ac92164934601dfdfa3fe0a8e''
      else [])"

definition sha256_known :: "byte list \<Rightarrow> string" where
  "sha256_known bs =
     (if bs = [] then ''e3b0c44298fc1c149afbf4c8996fb92427ae41e4649b934ca495991b7852b855''
      else [])"

definition int_decimal :: "string \<Rightarrow> error + int" where
  "int_decimal s =
     (if s \<noteq> [] \<and> list_all (\<lambda>c. 48 \<le> (of_char c :: nat) \<and> (of_char c :: nat) \<le> 57) s
      then Inr (foldl (\<lambda>acc c. acc * 10 + (int (of_char c) - 48)) 0 s)
      else Inl ValueError)"

definition lib_known :: "json list \<Rightarrow> pylib" where
  "lib_known docs =
     \<lparr>json_loads = loads_known docs, json_dumps = dumps_ascii, md5_hexdigest = md5_known,
      sha256_hexdigest = sha256_known, py_int = int_decimal\<rparr>"

text \<open>
  A sender's disk with a 10-byte file, a 16385-byte file, an empty file and a file holding
  \<open>abc\<close>, and a manager
  as \<open>P2PManager.__init__\<close> leaves it on a host whose address is 192.168.1.5.
\<close>

definition fs2 :: filesystem where
  "fs2 =
     (\<lambda>p. if p = ''/data/a.txt'' then Some \<lparr>content = replicate 10 0, readable = True\<rparr>
          else if p = ''/data/b.bin'' then Some \<lparr>content = replicate 16385 0, readable = True\<rparr>
          else if p = ''/data/empty.txt'' then Some \<lparr>content = [], readable = True\<rparr>
          else if p = ''/data/c.txt'' then Some \<lparr>content = encode ''abc'', readable = True\<rparr>
          else None)"

definition M0 :: manager where
  "M0 = P2PManager_init ''192.168.1.5''"

text \<open>
  The same disk with two more files: one that exists and cannot be opened, and one whose
  name is not UTF-8. Python holds the stray byte \<open>FF\<close> of that name as the lone surrogate
  \<open>U+DCFF\<close>.
\<close>

definition surrogate_name :: string where
  "surrogate_name = ''/data/'' @ [CHR 0xED, CHR 0xB3, CHR 0xBF] @ ''.txt''"

definition fs3 :: filesystem where
  "fs3 =
     (\<lambda>p. if p = ''/data/locked.txt'' then Some \<lparr>content = encode ''abc'', readable = False\<rparr>
          else if p = surrogate_name then Some \<lparr>content = encode ''abc'', readable = True\<rparr>
          else fs2 p)"

text \<open>A socket on which nothing has happened yet, with the given incoming segments.\<close>

definition fresh_sock :: "byte list list \<Rightarrow> bool \<Rightarrow> tcp_sock" where
  "fresh_sock segs pc =
     \<lparr>inbox = segs, peer_closes = pc, recv_calls = 0, sent = [], send_limit = None, closed = False\<rparr>"

text \<open>A string of \<open>2 ^ 32\<close> letters, and the discovery request for the session \<open>jt01\<close>.\<close>

definition long_text :: string where
  "long_text = replicate (2 ^ 32) (CHR ''a'')"

definition request01 :: json where
  "request01 = discovery_msg ''jt01''"

text \<open>
  The receiver's side of a transfer of session \<open>jt01\<close>: the discovery reply of the host
  192.168.1.5, the metadata of a session over the 10-byte file \<open>/data/a.txt\<close>, the same
  metadata under the identifier \<open>jt02\<close>, a library that reads these documents, the bytes
  of a framed document as \<open>_send_json\<close> writes them, and surroundings in which the
  discovery reply arrives and the sender's connection delivers the given segments.
\<close>

definition response01 :: json where
  "response01 = session_response M0 (JStr ''jt01'')"

definition metadata_for :: "string \<Rightarrow> json" where
  "metadata_for sid =
     JObj [(''session_id'', JStr sid),
           (''files'',
            JObj [(''e5197d396ac035e03114a12207bf78b6'',
                   JObj [(''path'', JStr ''/data/a.txt''), (''name'', JStr ''a.txt''),
                         (''size'', JInt 10), (''chunks'', JInt 1),
                         (''checksum'', JStr ''a63c90cc3684ad8b0a2176a6a8fe9005'')])]),
           (''total_size'', JInt 10)]"

definition lib01 :: pylib where
  "lib01 = lib_known [request01, response01, metadata_for ''jt01'', metadata_for ''jt02'']"

definition frame_of :: "pylib \<Rightarrow> json \<Rightarrow> byte list" where
  "frame_of L d = sent (snd (send_json L (fresh_sock [] False) d))"

definition env01 :: "byte list list \<Rightarrow> bool \<Rightarrow> recv_env" where
  "env01 segs pc =
     \<lparr>udp_sendto_ok = True,
      udp_reply = Some (encode (dumps_ascii response01)),
      tcp_connect = (\<lambda>host port. if host = ''192.168.1.5'' \<and> port = 45679
                                  then Some (fresh_sock segs pc) else None),
      mkdir_ok = True,
      open_wb_ok = (\<lambda>dir nm. True),
      disk = (\<lambda>key. None)\<rparr>"

text \<open>
  The manager after \<open>create_session('jt01', ['/data/empty.txt'])\<close> and after
  \<open>create_session('jt01', ['/data/c.txt'])\<close>, and the address of a querying peer.
\<close>

definition M_empty :: manager where
  "M_empty = snd (create_session lib01 fs2 M0 ''jt01'' [''/data/empty.txt''])"


definition peer01 :: "string \<times> nat" where
  "peer01 = (''192.168.1.9'', 50000)"

text \<open>
  A sender's network in which \<open>bind\<close> succeeds and a peer connects and accepts every
  byte, and the sessions that \<open>create_session\<close> builds over \<open>/data/empty.txt\<close> and over
  \<open>/data/c.txt\<close>.
\<close>

definition env_ok :: send_env where
  "env_ok = \<lparr>bind_ok = True, accept_peer = Some (fresh_sock [] False)\<rparr>"

definition session_empty :: transfer_session where
  "session_empty =
     \<lparr>session_id = ''jt01'', files = [''/data/empty.txt''],
      file_metadata =
        [(''cc7766e04e52cfe773ca8a9e53092e2d'',
          \<lparr>m_path = ''/data/empty.txt'', m_name = ''empty.txt'', m_size = 0, m_chunks = 1,
           m_checksum = ''d41d8cd98f00b204e9800998ecf8427e''\<rparr>)],
      total_size = 0, transferred_size = 0, is_active = False\<rparr>"

definition session_abc :: transfer_session where
  "session_abc =
     \<lparr>session_id = ''jt01'', files = [''/data/c.txt''],
      file_metadata =
        [(''5093c25ac92164934601dfdfa3fe0a8e'',
          \<lparr>m_path = ''/data/c.txt'', m_name = ''c.txt'', m_size = 3, m_chunks = 1,
           m_checksum = ''900150983cd24fb0d6963f7d28e17f72''\<rparr>)],
      total_size = 3, transferred_size = 0, is_active = False\<rparr>"

text \<open>
  The relation between the state of a sending loop before and after: the session differs
  by \<open>k\<close> more transferred bytes, the socket is as open and as limited as before, and
  every progress value reported in between is the percentage of a byte count that does
  not exceed the final one.
\<close>

definition sent_step :: "send_state \<Rightarrow> nat \<Rightarrow> send_state \<Rightarrow> bool" where
  "sent_step st k st' \<longleftrightarrow>
     ss_session st' = add_transferred k (ss_session st) \<and>
     closed (ss_sock st') = closed (ss_sock st) \<and>
     send_limit (ss_sock st') = send_limit (ss_sock st) \<and>
     (\<forall>e\<in>set (ss_progress st').
        e \<in> set (ss_progress st) \<or>
        (\<exists>t. t \<le> transferred_size (ss_session st) + k \<and>
             progress_pct t (total_size (ss_session st)) = Inr (fst e)))"

section \<open>Facts about the byte-level helpers\<close>

lemmas char_eval = char_of_def bit_Suc_0_iff

section \<open>Session creation\<close>

lemma os_stat_size_exists:
  "path_exists fs p \<Longrightarrow> os_stat_size fs p = Inr (st_size fs p)"
  by (auto simp: path_exists_def os_stat_size_def st_size_def)

lemma file_id_of_cases:
  "(encodable p \<and> file_id_of L p = Inr (md5_hexdigest L (encode p))) \<or>
   (\<not> encodable p \<and> file_id_of L p = Inl UnicodeEncodeError)"
  by (simp add: file_id_of_def encode_utf8_def)

lemma file_id_of_Inr: "file_id_of L p = Inr k \<Longrightarrow> encodable p"
  using file_id_of_cases [of p L] by auto

lemma file_id_of_encodable: "encodable p \<Longrightarrow> \<exists>k. file_id_of L p = Inr k"
  using file_id_of_cases [of p L] by auto

lemma file_id_of_not_encodable: "\<not> encodable p \<Longrightarrow> file_id_of L p = Inl UnicodeEncodeError"
  using file_id_of_cases [of p L] by auto

lemma calculate_metadata_step:
  assumes "path_exists fs p" "file_id_of L p = Inr k"
  shows "calculate_metadata L fs (p # ps) s lg =
         calculate_metadata L fs ps
           (s\<lparr>file_metadata := AList.update k (entry_of L fs p) (file_metadata s),
              total_size := total_size s + st_size fs p\<rparr>)
           (lg @ snd (calculate_file_checksum L fs p))"
  using assms by (simp add: os_stat_size_exists entry_of_def)

lemma calculate_metadata_skip:
  "\<not> path_exists fs p \<Longrightarrow> calculate_metadata L fs (p # ps) s lg = calculate_metadata L fs ps s lg"
  by simp

lemma calculate_metadata_raise:
  "path_exists fs p \<Longrightarrow> \<not> encodable p \<Longrightarrow>
   calculate_metadata L fs (p # ps) s lg = (Inl UnicodeEncodeError, lg)"
  by (simp add: os_stat_size_exists file_id_of_not_encodable)

lemma checksum_lines_Nil: "checksum_lines L fs [] = []"
  by (simp add: checksum_lines_def)

lemma checksum_lines_Cons:
  "checksum_lines L fs (p # ps) =
     (if path_exists fs p then snd (calculate_file_checksum L fs p) else []) @ checksum_lines L fs ps"
  by (simp add: checksum_lines_def)

lemma calculate_metadata_total:
  assumes "\<forall>p\<in>set fl. path_exists fs p \<longrightarrow> encodable p"
  shows "\<exists>s'. calculate_metadata L fs fl s lg = (Inr s', lg @ checksum_lines L fs fl) \<and>
     total_size s' = total_size s + sum_list (map (st_size fs) (filter (path_exists fs) fl)) \<and>
     transferred_size s' = transferred_size s \<and> session_id s' = session_id s"
  using assms
proof (induction fl arbitrary: s lg)
  case Nil
  show ?case by (simp add: checksum_lines_Nil)
next
  case (Cons p ps)
  from Cons.prems have rest: "\<forall>p\<in>set ps. path_exists fs p \<longrightarrow> encodable p" by simp
  show ?case
  proof (cases "path_exists fs p")
    case True
    with Cons.prems have "encodable p" by simp
    then obtain k where k: "file_id_of L p = Inr k" using file_id_of_encodable by blast
    let ?s1 = "s\<lparr>file_metadata := AList.update k (entry_of L fs p) (file_metadata s),
                  total_size := total_size s + st_size fs p\<rparr>"
    from Cons.IH [OF rest, of ?s1 "lg @ snd (calculate_file_checksum L fs p)"]
    show ?thesis
      by (simp only: calculate_metadata_step [OF True k] checksum_lines_Cons True if_True)
         (auto simp: True)
  next
    case False
    then show ?thesis using Cons.IH [OF rest, of s lg]
      by (simp add: checksum_lines_Cons)
  qed
qed

lemma calculate_metadata_fails:
  assumes "\<not> (\<forall>p\<in>set fl. path_exists fs p \<longrightarrow> encodable p)"
  shows "calculate_metadata L fs fl s lg =
           (Inl UnicodeEncodeError,
            lg @ checksum_lines L fs (takeWhile (\<lambda>p. path_exists fs p \<longrightarrow> encodable p) fl))"
  using assms
proof (induction fl arbitrary: s lg)
  case Nil
  then show ?case by simp
next
  case (Cons p ps)
  show ?case
  proof (cases "path_exists fs p")
    case False
    with Cons.prems have "\<not> (\<forall>p\<in>set ps. path_exists fs p \<longrightarrow> encodable p)" by simp
    from Cons.IH [OF this, of s lg] False show ?thesis
      by (simp add: checksum_lines_Cons)
  next
    case True
    show ?thesis
    proof (cases "encodable p")
      case False
      then show ?thesis
        by (simp only: calculate_metadata_raise [OF True False])
           (simp add: True checksum_lines_Nil)
    next
      case enc: True
      then obtain k where k: "file_id_of L p = Inr k" using file_id_of_encodable by blast
      from Cons.prems True enc
      have "\<not> (\<forall>p\<in>set ps. path_exists fs p \<longrightarrow> encodable p)" by simp
      from Cons.IH [OF this]
      show ?thesis
        by (simp only: calculate_metadata_step [OF True k])
           (simp add: True enc checksum_lines_Cons)
    qed
  qed
qed

lemma set_update_cases:
  "(k, m) \<in> set (AList.update k' v al) \<Longrightarrow> (k, m) \<in> set al \<or> (k, m) = (k', v)"
  by (induction al) (auto split: if_splits)

lemma calculate_metadata_entries:
  "calculate_metadata L fs fl s lg = (Inr s', lg') \<Longrightarrow> (k, m) \<in> set (file_metadata s') \<Longrightarrow>
     (k, m) \<in> set (file_metadata s) \<or>
     (\<exists>p\<in>set fl. path_exists fs p \<and> file_id_of L p = Inr k \<and> m = entry_of L fs p)"
proof (induction fl arbitrary: s lg)
  case Nil
  then show ?case by simp
next
  case (Cons p ps)
  show ?case
  proof (cases "path_exists fs p")
    case True
    have "encodable p"
    proof (rule ccontr)
      assume "\<not> encodable p"
      from calculate_metadata_raise [OF True this] Cons.prems(1) show False by simp
    qed
    then obtain k' where k': "file_id_of L p = Inr k'" using file_id_of_encodable by blast
    let ?s1 = "s\<lparr>file_metadata := AList.update k' (entry_of L fs p) (file_metadata s),
                  total_size := total_size s + st_size fs p\<rparr>"
    from Cons.prems(1) have c: "calculate_metadata L fs ps ?s1 (lg @ snd (calculate_file_checksum L fs p)) = (Inr s', lg')"
      by (simp only: calculate_metadata_step [OF True k'])
    from Cons.IH [OF c Cons.prems(2)]
    show ?thesis
    proof
      assume "(k, m) \<in> set (file_metadata ?s1)"
      then have "(k, m) \<in> set (AList.update k' (entry_of L fs p) (file_metadata s))"
        by simp
      then have "(k, m) \<in> set (file_metadata s) \<or> (k, m) = (k', entry_of L fs p)"
        by (rule set_update_cases)
      then show ?thesis using True k' by auto
    next
      assume "\<exists>p\<in>set ps. path_exists fs p \<and> file_id_of L p = Inr k \<and> m = entry_of L fs p"
      then show ?thesis by auto
    qed
  next
    case False
    then show ?thesis using Cons by auto
  qed
qed

lemma calculate_metadata_frame:
  "calculate_metadata L fs fl s lg = (Inr s', lg') \<Longrightarrow>
   \<forall>q\<in>set fl. path_exists fs q \<longrightarrow> file_id_of L q \<noteq> Inr k \<Longrightarrow>
   map_of (file_metadata s') k = map_of (file_metadata s) k"
proof (induction fl arbitrary: s lg)
  case Nil
  then show ?case by simp
next
  case (Cons p ps)
  show ?case
  proof (cases "path_exists fs p")
    case True
    have "encodable p"
    proof (rule ccontr)
      assume "\<not> encodable p"
      from calculate_metadata_raise [OF True this] Cons.prems(1) show False by simp
    qed
    then obtain k' where k': "file_id_of L p = Inr k'" using file_id_of_encodable by blast
    let ?s1 = "s\<lparr>file_metadata := AList.update k' (entry_of L fs p) (file_metadata s),
                  total_size := total_size s + st_size fs p\<rparr>"
    from Cons.prems(1) have c: "calculate_metadata L fs ps ?s1 (lg @ snd (calculate_file_checksum L fs p)) = (Inr s', lg')"
      by (simp only: calculate_metadata_step [OF True k'])
    have ne: "k' \<noteq> k" using Cons.prems(2) True k' by auto
    have "map_of (file_metadata s') k = map_of (file_metadata ?s1) k"
      using Cons.IH [OF c] Cons.prems(2) by simp
    also have "\<dots> = map_of (file_metadata s) k"
      using ne by (simp add: update_conv')
    finally show ?thesis .
  next
    case False
    then show ?thesis using Cons by auto
  qed
qed

lemma calculate_metadata_lookup:
  "calculate_metadata L fs fl s lg = (Inr s', lg') \<Longrightarrow> p \<in> set fl \<Longrightarrow> path_exists fs p \<Longrightarrow>
   \<forall>q\<in>set fl. path_exists fs q \<longrightarrow> file_id_of L q = file_id_of L p \<longrightarrow> q = p \<Longrightarrow>
   \<exists>k. file_id_of L p = Inr k \<and> map_of (file_metadata s') k = Some (entry_of L fs p)"
proof (induction fl arbitrary: s lg)
  case Nil
  then show ?case by simp
next
  case (Cons q qs)
  show ?case
  proof (cases "path_exists fs q")
    case True
    have "encodable q"
    proof (rule ccontr)
      assume "\<not> encodable q"
      from calculate_metadata_raise [OF True this] Cons.prems(1) show False by simp
    qed
    then obtain k' where k': "file_id_of L q = Inr k'" using file_id_of_encodable by blast
    let ?s1 = "s\<lparr>file_metadata := AList.update k' (entry_of L fs q) (file_metadata s),
                  total_size := total_size s + st_size fs q\<rparr>"
    from Cons.prems(1) have c: "calculate_metadata L fs qs ?s1 (lg @ snd (calculate_file_checksum L fs q)) = (Inr s', lg')"
      by (simp only: calculate_metadata_step [OF True k'])
    show ?thesis
    proof (cases "p \<in> set qs")
      case True
      then show ?thesis using Cons.IH [OF c] Cons.prems by simp
    next
      case False
      with Cons.prems have pq: "q = p" by simp
      have "\<forall>r\<in>set qs. path_exists fs r \<longrightarrow> file_id_of L r \<noteq> Inr k'"
        using Cons.prems(4) False k' pq by auto
      from calculate_metadata_frame [OF c this]
      have "map_of (file_metadata s') k' = Some (entry_of L fs p)"
        using pq by (simp add: update_conv')
      then show ?thesis using k' pq by simp
    qed
  next
    case False
    with Cons.prems have "p \<in> set qs" by auto
    then show ?thesis using Cons False by auto
  qed
qed


lemma sum_update_fresh:
  "k \<notin> fst ` set al \<Longrightarrow>
   sum_list (map f (AList.update k v al)) = sum_list (map f al) + (f (k, v) :: nat)"
  by (induction al) auto

lemma length_update_fresh:
  "k \<notin> fst ` set al \<Longrightarrow> length (AList.update k v al) = Suc (length al)"
  by (induction al) auto


lemma calculate_metadata_distinct:
  "calculate_metadata L fs fl s lg = (Inr s', lg') \<Longrightarrow>
   distinct (map (file_id_of L) (filter (path_exists fs) fl)) \<Longrightarrow>
   \<forall>p\<in>set fl. path_exists fs p \<longrightarrow> (\<forall>k\<in>fst ` set (file_metadata s). file_id_of L p \<noteq> Inr k) \<Longrightarrow>
   sum_list (map (\<lambda>e. m_size (snd e)) (file_metadata s')) =
     sum_list (map (\<lambda>e. m_size (snd e)) (file_metadata s)) +
     sum_list (map (st_size fs) (filter (path_exists fs) fl)) \<and>
   length (file_metadata s') = length (file_metadata s) + length (filter (path_exists fs) fl)"
proof (induction fl arbitrary: s lg)
  case Nil
  then show ?case by simp
next
  case (Cons p ps)
  show ?case
  proof (cases "path_exists fs p")
    case False
    then show ?thesis using Cons by simp
  next
    case True
    have "encodable p"
    proof (rule ccontr)
      assume "\<not> encodable p"
      from calculate_metadata_raise [OF True this] Cons.prems(1) show False by simp
    qed
    then obtain k' where k': "file_id_of L p = Inr k'" using file_id_of_encodable by blast
    let ?s1 = "s\<lparr>file_metadata := AList.update k' (entry_of L fs p) (file_metadata s),
                  total_size := total_size s + st_size fs p\<rparr>"
    from Cons.prems(1) have c: "calculate_metadata L fs ps ?s1 (lg @ snd (calculate_file_checksum L fs p)) = (Inr s', lg')"
      by (simp only: calculate_metadata_step [OF True k'])
    have fresh: "k' \<notin> fst ` set (file_metadata s)"
      using Cons.prems(3) True k' by auto
    have d: "distinct (map (file_id_of L) (filter (path_exists fs) ps))"
      using Cons.prems(2) True by simp
    have nk: "\<forall>q\<in>set ps. path_exists fs q \<longrightarrow> file_id_of L q \<noteq> Inr k'"
    proof (intro ballI impI notI)
      fix q assume q: "q \<in> set ps" "path_exists fs q" "file_id_of L q = Inr k'"
      then have "file_id_of L p \<in> file_id_of L ` set (filter (path_exists fs) ps)"
        using k' by (simp add: image_iff) (metis q(1,2))
      then show False using Cons.prems(2) True by simp
    qed
    have f: "\<forall>q\<in>set ps. path_exists fs q \<longrightarrow> (\<forall>k\<in>fst ` set (file_metadata ?s1). file_id_of L q \<noteq> Inr k)"
      using Cons.prems(3) nk by (auto simp: dom_update)
    have s1: "sum_list (map (\<lambda>e. m_size (snd e)) (file_metadata ?s1)) =
              sum_list (map (\<lambda>e. m_size (snd e)) (file_metadata s)) + st_size fs p"
      using sum_update_fresh [OF fresh, of "\<lambda>e. m_size (snd e)" "entry_of L fs p"]
      by (simp add: entry_of_def)
    have l1: "length (file_metadata ?s1) = length (file_metadata s) + 1"
      using fresh by (simp add: length_update_fresh)
    from Cons.IH [OF c d f] s1 l1 True show ?thesis by simp
  qed
qed

lemma init_calc:
  "TransferSession_init L fs sid fl lg =
     calculate_metadata L fs fl \<lparr>session_id = sid, files = fl, file_metadata = [], total_size = 0,
                transferred_size = 0, is_active = False\<rparr> lg"
  by (cases fl) (simp_all add: TransferSession_init_def Let_def)

lemma create_session_registers:
  assumes "\<forall>p\<in>set fl. path_exists fs p \<longrightarrow> encodable p"
  shows "\<exists>s. create_session L fs M sid fl =
           (True, logger Info (''P2P: Created session '' @ sid @ '' with '' @ str_nat (length fl) @ '' files'')
                    (M\<lparr>sessions := (sessions M)(sid \<mapsto> s), log := log M @ checksum_lines L fs fl\<rparr>)) \<and>
       TransferSession_init L fs sid fl (log M) = (Inr s, log M @ checksum_lines L fs fl)"
proof -
  from calculate_metadata_total [OF assms, of L "\<lparr>session_id = sid, files = fl, file_metadata = [], total_size = 0,
                transferred_size = 0, is_active = False\<rparr>" "log M"]
  obtain s where "TransferSession_init L fs sid fl (log M) = (Inr s, log M @ checksum_lines L fs fl)"
    unfolding init_calc by blast
  then show ?thesis by (simp add: create_session_def)
qed

lemma create_session_fails:
  assumes "\<not> (\<forall>p\<in>set fl. path_exists fs p \<longrightarrow> encodable p)"
  shows "create_session L fs M sid fl =
           (False, logger Error ''Error creating session''
                     (M\<lparr>log := log M @ checksum_lines L fs
                                        (takeWhile (\<lambda>p. path_exists fs p \<longrightarrow> encodable p) fl)\<rparr>))"
  by (simp add: create_session_def init_calc calculate_metadata_fails [OF assms])


lemma init_total:
  assumes "TransferSession_init L fs sid fl lg = (Inr s, lg')"
  shows "total_size s = sum_list (map (st_size fs) (filter (path_exists fs) fl))"
    and "transferred_size s = 0"
proof -
  let ?s0 = "\<lparr>session_id = sid, files = fl, file_metadata = [], total_size = 0,
                transferred_size = 0, is_active = False\<rparr>"
  have c: "calculate_metadata L fs fl ?s0 lg = (Inr s, lg')"
    using assms by (simp add: init_calc)
  have ok: "\<forall>p\<in>set fl. path_exists fs p \<longrightarrow> encodable p"
  proof (rule ccontr)
    assume "\<not> (\<forall>p\<in>set fl. path_exists fs p \<longrightarrow> encodable p)"
    from calculate_metadata_fails [OF this, of L ?s0 lg] c show False by simp
  qed
  from calculate_metadata_total [OF ok, of L ?s0 lg] c
  show "total_size s = sum_list (map (st_size fs) (filter (path_exists fs) fl))"
    and "transferred_size s = 0" by auto
qed

text \<open>
  Claim C4, as amended. When every listed path exists and can be encoded as UTF-8,
  \<open>create_session\<close> succeeds and registers a session whose \<open>total_size\<close> is the sum of the
  sizes over the list, a path that is listed twice counted twice; every entry of
  \<open>file_metadata\<close> has \<open>chunks = size div 8192 + 1\<close>; when the path hash gives the listed
  paths different identifiers, each listed file has its entry, with its own size \<open>s\<close> and
  the chunk count \<open>s div 8192 + 1\<close>; and when moreover no path is listed twice, there is
  one entry for each listed path and \<open>total_size\<close> is the sum of the sizes in the entries.
  The witness is the session over a 10-byte and a 16385-byte file: \<open>total_size\<close> 16395,
  chunk counts 1 and 3.
\<close>

theorem create_session_sizes:
  assumes ex: "\<forall>p\<in>set fl. path_exists fs p"
    and enc: "\<forall>p\<in>set fl. encodable p"
  shows "fst (create_session L fs M sid fl) = True \<and>
         (\<exists>s. sessions (snd (create_session L fs M sid fl)) sid = Some s \<and>
              total_size s = sum_list (map (st_size fs) fl) \<and>
              (\<forall>e\<in>set (file_metadata s). m_chunks (snd e) = m_size (snd e) div 8192 + 1) \<and>
              (inj_on (file_id_of L) (set fl) \<longrightarrow>
                (\<forall>p\<in>set fl. \<exists>k m. file_id_of L p = Inr k \<and>
                    map_of (file_metadata s) k = Some m \<and>
                    m_path m = p \<and> m_size m = st_size fs p \<and>
                    m_chunks m = st_size fs p div 8192 + 1)) \<and>
              (distinct fl \<and> inj_on (file_id_of L) (set fl) \<longrightarrow>
                 length (file_metadata s) = length fl \<and>
                 sum_list (map (\<lambda>e. m_size (snd e)) (file_metadata s)) = total_size s))"
proof -
  have ok: "\<forall>p\<in>set fl. path_exists fs p \<longrightarrow> encodable p" using enc by simp
  obtain s where cs: "create_session L fs M sid fl =
           (True, logger Info (''P2P: Created session '' @ sid @ '' with '' @ str_nat (length fl) @ '' files'')
                    (M\<lparr>sessions := (sessions M)(sid \<mapsto> s), log := log M @ checksum_lines L fs fl\<rparr>))"
    and ini: "TransferSession_init L fs sid fl (log M) = (Inr s, log M @ checksum_lines L fs fl)"
    using create_session_registers [OF ok] by blast
  have reg: "sessions (snd (create_session L fs M sid fl)) sid = Some s"
    by (simp add: cs logger_def)
  have fil: "filter (path_exists fs) fl = fl" using ex by (simp add: filter_id_conv)
  then have tot: "total_size s = sum_list (map (st_size fs) fl)"
    using init_total(1) [OF ini] by simp
  note calc = ini [unfolded init_calc]
  have ch: "\<forall>e\<in>set (file_metadata s). m_chunks (snd e) = m_size (snd e) div 8192 + 1"
  proof
    fix e assume "e \<in> set (file_metadata s)"
    then have "(fst e, snd e) \<in> set (file_metadata s)" by simp
    from calculate_metadata_entries [OF calc this]
    show "m_chunks (snd e) = m_size (snd e) div 8192 + 1"
      by (auto simp: entry_of_def)
  qed
  have per: "inj_on (file_id_of L) (set fl) \<longrightarrow>
                (\<forall>p\<in>set fl. \<exists>k m. file_id_of L p = Inr k \<and>
                    map_of (file_metadata s) k = Some m \<and>
                    m_path m = p \<and> m_size m = st_size fs p \<and>
                    m_chunks m = st_size fs p div 8192 + 1)"
  proof (intro impI ballI)
    fix p assume inj: "inj_on (file_id_of L) (set fl)" and p: "p \<in> set fl"
    have u: "\<forall>q\<in>set fl. path_exists fs q \<longrightarrow> file_id_of L q = file_id_of L p \<longrightarrow> q = p"
      using inj p by (auto dest: inj_onD)
    have pe: "path_exists fs p" using ex p by simp
    from calculate_metadata_lookup [OF calc p pe u]
    obtain k where "file_id_of L p = Inr k" "map_of (file_metadata s) k = Some (entry_of L fs p)"
      by blast
    then show "\<exists>k m. file_id_of L p = Inr k \<and>
                    map_of (file_metadata s) k = Some m \<and>
                    m_path m = p \<and> m_size m = st_size fs p \<and>
                    m_chunks m = st_size fs p div 8192 + 1"
      by (simp add: entry_of_def)
  qed
  have dis: "distinct fl \<and> inj_on (file_id_of L) (set fl) \<longrightarrow>
                 length (file_metadata s) = length fl \<and>
                 sum_list (map (\<lambda>e. m_size (snd e)) (file_metadata s)) = total_size s"
  proof
    assume "distinct fl \<and> inj_on (file_id_of L) (set fl)"
    then have d: "distinct (map (file_id_of L) (filter (path_exists fs) fl))"
      by (simp add: fil distinct_map)
    from calculate_metadata_distinct [OF calc d]
    show "length (file_metadata s) = length fl \<and>
          sum_list (map (\<lambda>e. m_size (snd e)) (file_metadata s)) = total_size s"
      by (simp add: fil tot)
  qed
  show ?thesis using cs reg tot ch per dis by simp
qed

lemmas known_eval = lib_known_def md5_known_def encode_def file_id_of_def encode_utf8_def
  encodable_def cont_byte_def

theorem create_session_sizes_witness:
  "path_exists fs2 ''/data/a.txt'' \<and> path_exists fs2 ''/data/b.bin'' \<and>
   encodable ''/data/a.txt'' \<and> encodable ''/data/b.bin'' \<and>
   (\<exists>s. sessions (snd (create_session (lib_known []) fs2 M0 ''jt01''
                         [''/data/a.txt'', ''/data/b.bin''])) ''jt01'' = Some s \<and>
        total_size s = 16395 \<and>
        length (file_metadata s) = 2 \<and>
        (\<exists>m. map_of (file_metadata s) ''e5197d396ac035e03114a12207bf78b6'' = Some m \<and>
             m_path m = ''/data/a.txt'' \<and> m_size m = 10 \<and> m_chunks m = 1) \<and>
        (\<exists>m. map_of (file_metadata s) ''683667a24a8a97c424a5a00260e1fa0c'' = Some m \<and>
             m_path m = ''/data/b.bin'' \<and> m_size m = 16385 \<and> m_chunks m = 3))"
proof -
  let ?fl = "[''/data/a.txt'', ''/data/b.bin'']"
  have ex: "\<forall>p\<in>set ?fl. path_exists fs2 p"
    by (simp add: path_exists_def fs2_def)
  have enc: "\<forall>p\<in>set ?fl. encodable p"
    by (simp add: encodable_def)
  have ida: "file_id_of (lib_known []) ''/data/a.txt'' = Inr ''e5197d396ac035e03114a12207bf78b6''"
    by (simp add: known_eval)
  have idb: "file_id_of (lib_known []) ''/data/b.bin'' = Inr ''683667a24a8a97c424a5a00260e1fa0c''"
    by (simp add: known_eval)
  have inj: "inj_on (file_id_of (lib_known [])) (set ?fl)"
    by (simp add: ida idb)
  have dis: "distinct ?fl" by simp
  have sz: "st_size fs2 ''/data/a.txt'' = 10" "st_size fs2 ''/data/b.bin'' = 16385"
    by (simp_all add: st_size_def fs2_def)
  from create_session_sizes [OF ex enc, of "lib_known []" M0 "''jt01''"]
  obtain s where s: "sessions (snd (create_session (lib_known []) fs2 M0 ''jt01'' ?fl)) ''jt01'' = Some s"
    and tot:  "total_size s = sum_list (map (st_size fs2) ?fl)"
    and per: "inj_on (file_id_of (lib_known [])) (set ?fl) \<longrightarrow>
                (\<forall>p\<in>set ?fl. \<exists>k m. file_id_of (lib_known []) p = Inr k \<and>
                    map_of (file_metadata s) k = Some m \<and>
                    m_path m = p \<and> m_size m = st_size fs2 p \<and>
                    m_chunks m = st_size fs2 p div 8192 + 1)"
    and cnt: "distinct ?fl \<and> inj_on (file_id_of (lib_known [])) (set ?fl) \<longrightarrow>
                 length (file_metadata s) = length ?fl \<and>
                 sum_list (map (\<lambda>e. m_size (snd e)) (file_metadata s)) = total_size s"
    by blast
  from per inj have a: "\<exists>m. map_of (file_metadata s) ''e5197d396ac035e03114a12207bf78b6'' = Some m \<and>
             m_path m = ''/data/a.txt'' \<and> m_size m = 10 \<and> m_chunks m = 1"
    and b: "\<exists>m. map_of (file_metadata s) ''683667a24a8a97c424a5a00260e1fa0c'' = Some m \<and>
             m_path m = ''/data/b.bin'' \<and> m_size m = 16385 \<and> m_chunks m = 3"
    using sz ida idb by auto
  have t: "total_size s = 16395" using tot sz by simp
  have l: "length (file_metadata s) = 2" using cnt inj dis by simp
  from ex enc have pre: "path_exists fs2 ''/data/a.txt'' \<and> path_exists fs2 ''/data/b.bin'' \<and>
     encodable ''/data/a.txt'' \<and> encodable ''/data/b.bin''" by simp
  show ?thesis
    by (intro conjI pre [THEN conjunct1] pre [THEN conjunct2, THEN conjunct1]
          pre [THEN conjunct2, THEN conjunct2, THEN conjunct1]
          pre [THEN conjunct2, THEN conjunct2, THEN conjunct2] exI [of _ s] s t l a b)
qed

text \<open>
  The claim speaks of every list of existing files. A file whose name is not UTF-8 exists,
  and \<open>create_session\<close> over it returns \<open>False\<close> and registers no session, so there is no
  \<open>total_size\<close> at all.
\<close>

theorem create_session_sizes_counterexample:
  "path_exists fs3 surrogate_name \<and>
   fst (create_session (lib_known []) fs3 M0 ''jt01'' [surrogate_name]) = False \<and>
   sessions (snd (create_session (lib_known []) fs3 M0 ''jt01'' [surrogate_name])) ''jt01'' = None"
proof -
  have ne: "\<not> encodable surrogate_name"
    by (simp add: encodable_def surrogate_name_def)
  have ex: "path_exists fs3 surrogate_name"
    by (simp add: path_exists_def fs3_def)
  have st: "os_stat_size fs3 surrogate_name = Inr 3"
    by (simp add: os_stat_size_def st_size_def fs3_def encode_def)
  show ?thesis
    by (simp add: ex create_session_def TransferSession_init_def st file_id_of_def encode_utf8_def ne
          logger_def M0_def P2PManager_init_def)
qed

text \<open>
  A path that is listed twice is counted twice in \<open>total_size\<close> and has one entry: over
  the 10-byte file listed twice, \<open>total_size\<close> is 20 and the sizes in \<open>file_metadata\<close> are
  the one 10.
\<close>

lemma create_session_repeated_path:
  "map_option (\<lambda>s. (total_size s, map (\<lambda>e. m_size (snd e)) (file_metadata s)))
     (sessions (snd (create_session (lib_known []) fs2 M0 ''jt01'' [''/data/a.txt'', ''/data/a.txt'']))
        ''jt01'') = Some (20, [10])"
proof -
  have id: "file_id_of (lib_known []) ''/data/a.txt'' = Inr ''e5197d396ac035e03114a12207bf78b6''"
    by (simp add: known_eval)
  have ex: "path_exists fs2 ''/data/a.txt''" by (simp add: path_exists_def fs2_def)
  have sz: "st_size fs2 ''/data/a.txt'' = 10" by (simp add: st_size_def fs2_def)
  have "calculate_metadata (lib_known []) fs2 [''/data/a.txt'', ''/data/a.txt''] s lg =
          (Inr (s\<lparr>file_metadata :=
                     AList.update ''e5197d396ac035e03114a12207bf78b6'' (entry_of (lib_known []) fs2 ''/data/a.txt'')
                       (AList.update ''e5197d396ac035e03114a12207bf78b6''
                          (entry_of (lib_known []) fs2 ''/data/a.txt'') (file_metadata s)),
                   total_size := total_size s + 10 + 10\<rparr>),
           (lg @ snd (calculate_file_checksum (lib_known []) fs2 ''/data/a.txt'')) @
             snd (calculate_file_checksum (lib_known []) fs2 ''/data/a.txt''))" for s lg
    by (simp only: calculate_metadata_step [OF ex id] calculate_metadata.simps(1) sz) simp
  then show ?thesis
    by (simp only: create_session_def init_calc) (simp add: logger_def entry_of_def sz)
qed

section \<open>Message framing\<close>

lemma unat_byte_of_nat: "unat (of_nat k :: byte) = k mod 256"
  by (simp add: unat_of_nat)

lemma to_bytes4_length: "to_bytes4 n = Inr bs \<Longrightarrow> length bs = 4"
  by (auto simp: to_bytes4_def split: if_splits)

lemma next_data_props:
  "next_data n segs = (chunk, rest) \<Longrightarrow>
     chunk = take (length chunk) (concat segs) \<and>
     concat rest = drop (length chunk) (concat segs) \<and>
     length chunk \<le> n \<and>
     (0 < n \<longrightarrow> concat segs \<noteq> [] \<longrightarrow> chunk \<noteq> []) \<and>
     (chunk = [] \<longrightarrow> 0 < n \<longrightarrow> rest = [])"
proof (induction segs)
  case Nil
  then show ?case by simp
next
  case (Cons seg segs)
  show ?case
  proof (cases "seg = []")
    case True
    then show ?thesis using Cons by simp
  next
    case False
    then show ?thesis using Cons.prems by (auto simp: min_def)
  qed
qed

lemma from_bytes_4:
  "from_bytes [a, b, c, d] = ((unat a * 256 + unat b) * 256 + unat c) * 256 + unat d"
  by (simp add: from_bytes_def)

lemma base256_digits:
  fixes n :: nat
  assumes "n div 256 div 256 div 256 < 256"
  shows "((n div 256 div 256 div 256 mod 256 * 256 + n div 256 div 256 mod 256) * 256
            + n div 256 mod 256) * 256 + n mod 256 = n"
proof -
  define q1 where "q1 = n div 256"
  define q2 where "q2 = q1 div 256"
  define q3 where "q3 = q2 div 256"
  have a: "q3 mod 256 = q3" using assms by (simp add: q1_def q2_def q3_def)
  have "q3 * 256 + q2 mod 256 = q2" by (simp add: q3_def)
  moreover have "q2 * 256 + q1 mod 256 = q1" by (simp add: q2_def)
  moreover have "q1 * 256 + n mod 256 = n" by (simp add: q1_def)
  ultimately have "((q3 mod 256 * 256 + q2 mod 256) * 256 + q1 mod 256) * 256 + n mod 256 = n"
    using a by simp
  then show ?thesis by (simp add: q1_def q2_def q3_def)
qed

lemma from_bytes_to_bytes4: "to_bytes4 n = Inr bs \<Longrightarrow> from_bytes bs = n"
proof -
  assume a: "to_bytes4 n = Inr bs"
  then have n: "n < 2 ^ 32" by (auto simp: to_bytes4_def split: if_splits)
  have d16: "n div 2 ^ 16 = n div 256 div 256"
    by (simp add: div_mult2_eq [symmetric])
  have d24: "n div 2 ^ 24 = n div 256 div 256 div 256"
    by (simp add: div_mult2_eq [symmetric])
  have d8: "n div 2 ^ 8 = n div 256" by simp
  have bs: "bs = [of_nat (n div 256 div 256 div 256), of_nat (n div 256 div 256), of_nat (n div 256), of_nat n]"
    using a n unfolding to_bytes4_def d16 d24 d8 by simp
  have "n div 2 ^ 24 < 256" using n by (simp add: less_mult_imp_div_less)
  then have small: "n div 256 div 256 div 256 < 256" by (simp only: d24)
  show ?thesis
    unfolding bs from_bytes_4 unat_byte_of_nat by (rule base256_digits [OF small])
qed


lemma recv_data:
  assumes "\<not> closed sk" "0 < n" "concat (inbox sk) \<noteq> []"
  shows "\<exists>chunk rest. recv n sk = (Inr chunk, sk\<lparr>inbox := rest, recv_calls := recv_calls sk + 1\<rparr>) \<and>
           chunk \<noteq> [] \<and> length chunk \<le> n \<and>
           chunk = take (length chunk) (concat (inbox sk)) \<and>
           concat rest = drop (length chunk) (concat (inbox sk))"
proof -
  obtain chunk rest where nd: "next_data n (inbox sk) = (chunk, rest)" by (cases "next_data n (inbox sk)")
  from next_data_props [OF nd] assms
  have p: "chunk \<noteq> []" "length chunk \<le> n" "chunk = take (length chunk) (concat (inbox sk))"
    "concat rest = drop (length chunk) (concat (inbox sk))" by auto
  have "recv n sk = (Inr chunk, sk\<lparr>inbox := rest, recv_calls := recv_calls sk + 1\<rparr>)"
    using assms(1) nd p(1) by (simp add: recv_def)
  with p show ?thesis by blast
qed

lemma recv_eof:
  assumes "\<not> closed sk" "0 < n" "concat (inbox sk) = []" "peer_closes sk"
  shows "recv n sk = (Inr [], sk\<lparr>inbox := [], recv_calls := recv_calls sk + 1\<rparr>)"
proof -
  obtain chunk rest where nd: "next_data n (inbox sk) = (chunk, rest)" by (cases "next_data n (inbox sk)")
  from next_data_props [OF nd] assms have "chunk = []" "rest = []" by auto
  then show ?thesis using assms nd by (simp add: recv_def)
qed

lemma receive_json_loop_complete:
  "\<not> closed sk \<Longrightarrow> length acc \<le> len \<Longrightarrow> len - length acc \<le> length (concat (inbox sk)) \<Longrightarrow>
   \<exists>sk'. receive_json_loop len acc sk =
            (Inr (Some (acc @ take (len - length acc) (concat (inbox sk)))), sk') \<and>
         concat (inbox sk') = drop (len - length acc) (concat (inbox sk)) \<and>
         \<not> closed sk' \<and> peer_closes sk' = peer_closes sk \<and> sent sk' = sent sk \<and>
         send_limit sk' = send_limit sk"
proof (induction len acc sk rule: receive_json_loop.induct)
  case (1 len acc sk)
  show ?case
  proof (cases "length acc < len")
    case False
    with 1(3) have "len - length acc = 0" by simp
    then show ?thesis using False 1(2) by (simp add: receive_json_loop.simps)
  next
    case True
    with 1(4) have "0 < length (concat (inbox sk))" by linarith
    then have ne: "concat (inbox sk) \<noteq> []" by simp
    from recv_data [OF 1(2) _ ne, of "len - length acc"] True
    obtain chunk rest where r: "recv (len - length acc) sk = (Inr chunk, sk\<lparr>inbox := rest, recv_calls := recv_calls sk + 1\<rparr>)"
      and c: "chunk \<noteq> []" "length chunk \<le> len - length acc"
        "chunk = take (length chunk) (concat (inbox sk))"
        "concat rest = drop (length chunk) (concat (inbox sk))" by auto
    let ?sk1 = "sk\<lparr>inbox := rest, recv_calls := recv_calls sk + 1\<rparr>"
    have step: "receive_json_loop len acc sk = receive_json_loop len (acc @ chunk) ?sk1"
      using True r c(1) by (subst receive_json_loop.simps) simp
    have pre: "\<not> closed ?sk1" "length (acc @ chunk) \<le> len"
      "len - length (acc @ chunk) \<le> length (concat (inbox ?sk1))"
      using 1(2) c(2) 1(4) c(4) True by auto
    from 1(1) [OF True r [symmetric] refl c(1) pre]
    obtain sk' where ih: "receive_json_loop len (acc @ chunk) ?sk1 =
            (Inr (Some ((acc @ chunk) @ take (len - length (acc @ chunk)) (concat (inbox ?sk1)))), sk')"
      "concat (inbox sk') = drop (len - length (acc @ chunk)) (concat (inbox ?sk1))"
      "\<not> closed sk'" "peer_closes sk' = peer_closes ?sk1" "sent sk' = sent ?sk1"
      "send_limit sk' = send_limit ?sk1" by blast
    let ?s = "concat (inbox sk)"
    let ?k = "length chunk"
    let ?m = "len - length acc"
    have km: "?k \<le> ?m" by (rule c(2))
    have "chunk @ take (?m - ?k) (drop ?k ?s) = take ?m ?s"
    proof -
      have eq: "?k + (?m - ?k) = ?m" using km by arith
      have "take ?m ?s = take (?k + (?m - ?k)) ?s" by (simp only: eq)
      also have "\<dots> = take ?k ?s @ take (?m - ?k) (drop ?k ?s)" by (rule take_add)
      finally show ?thesis using c(3) by simp
    qed
    note X = this
    have i1: "concat (inbox ?sk1) = drop ?k ?s" using c(4) by simp
    have i2: "len - length (acc @ chunk) = ?m - ?k" by simp
    have i3: "?m - ?k + ?k = ?m" using km by arith
    have e1: "(acc @ chunk) @ take (len - length (acc @ chunk)) (concat (inbox ?sk1)) = acc @ take ?m ?s"
      by (simp only: i1 i2 append_assoc X)
    have e2: "drop (len - length (acc @ chunk)) (concat (inbox ?sk1)) = drop ?m ?s"
      by (simp only: i1 i2 drop_drop i3)
    have f: "peer_closes ?sk1 = peer_closes sk" "sent ?sk1 = sent sk" "send_limit ?sk1 = send_limit sk"
      by simp_all
    have "receive_json_loop len acc sk = (Inr (Some (acc @ take ?m ?s)), sk')"
      by (simp only: step ih(1) e1)
    moreover have "concat (inbox sk') = drop ?m ?s" by (simp only: ih(2) e2)
    moreover have "peer_closes sk' = peer_closes sk" "sent sk' = sent sk" "send_limit sk' = send_limit sk"
      by (simp_all only: ih(4,5,6) f)
    ultimately show ?thesis using ih(3) by blast
  qed
qed

lemma receive_json_loop_eof:
  "\<not> closed sk \<Longrightarrow> peer_closes sk \<Longrightarrow> length acc + length (concat (inbox sk)) < len \<Longrightarrow>
   fst (receive_json_loop len acc sk) = Inr None"
proof (induction len acc sk rule: receive_json_loop.induct)
  case (1 len acc sk)
  from 1(4) have lt: "length acc < len" by simp
  show ?case
  proof (cases "concat (inbox sk) = []")
    case True
    from recv_eof [OF 1(2) _ True 1(3), of "len - length acc"] lt
    show ?thesis by (subst receive_json_loop.simps) simp
  next
    case False
    from recv_data [OF 1(2) _ False, of "len - length acc"] lt
    obtain chunk rest where r: "recv (len - length acc) sk = (Inr chunk, sk\<lparr>inbox := rest, recv_calls := recv_calls sk + 1\<rparr>)"
      and c: "chunk \<noteq> []" "length chunk \<le> len - length acc"
        "chunk = take (length chunk) (concat (inbox sk))"
        "concat rest = drop (length chunk) (concat (inbox sk))" by auto
    let ?sk1 = "sk\<lparr>inbox := rest, recv_calls := recv_calls sk + 1\<rparr>"
    have step: "receive_json_loop len acc sk = receive_json_loop len (acc @ chunk) ?sk1"
      using lt r c(1) by (subst receive_json_loop.simps) simp
    have "length chunk = length (take (length chunk) (concat (inbox sk)))"
      using c(3) by simp
    then have "length chunk \<le> length (concat (inbox sk))" by simp
    then have pre: "\<not> closed ?sk1" "peer_closes ?sk1"
      "length (acc @ chunk) + length (concat (inbox ?sk1)) < len"
      using 1(2,3,4) c(4) by auto
    from 1(1) [OF lt r [symmetric] refl c(1) pre] step show ?thesis by simp
  qed
qed


lemma char_of_byte_of_char: "char_of (unat (of_nat (of_char c :: nat) :: byte)) = c"
  by (simp add: unat_of_nat)

lemma utf8_valid_ascii: "\<forall>b\<in>set bs. b < 128 \<Longrightarrow> utf8_valid bs"
  by (induction bs) auto

lemma decode_encode_ascii:
  assumes "\<forall>c\<in>set s. (of_char c :: nat) < 128"
  shows "decode (encode s) = Inr s"
proof -
  have "\<forall>b\<in>set (map unat (encode s)). b < 128"
    using assms by (auto simp: encode_def unat_byte_of_nat)
  then have v: "utf8_valid (map unat (encode s))" by (rule utf8_valid_ascii)
  have "map (\<lambda>b. char_of (unat b)) (encode s) = s"
    by (simp add: encode_def o_def char_of_byte_of_char)
  with v show ?thesis by (simp add: decode_def)
qed

lemma send_json_writes:
  assumes "\<not> closed sk" "send_limit sk = None" "length (json_dumps L d) < 2 ^ 32"
  shows "\<exists>pre. to_bytes4 (length (encode (json_dumps L d))) = Inr pre \<and>
           send_json L sk d = (None, sk\<lparr>sent := sent sk @ pre @ encode (json_dumps L d)\<rparr>)"
proof -
  have "length (encode (json_dumps L d)) < 2 ^ 32" using assms(3) by (simp add: encode_def)
  then obtain pre where p: "to_bytes4 (length (encode (json_dumps L d))) = Inr pre"
    by (simp add: to_bytes4_def)
  have "send_json L sk d = (None, sk\<lparr>sent := sent sk @ pre @ encode (json_dumps L d)\<rparr>)"
    using assms(1,2) p by (simp add: send_json_def Let_def sendall_def)
  with p show ?thesis by blast
qed

lemma recv_first_segment:
  assumes "\<not> closed rk" "inbox rk = seg # segs" "n \<le> length seg" "0 < n"
  shows "\<exists>rest. recv n rk = (Inr (take n seg), rk\<lparr>inbox := rest, recv_calls := recv_calls rk + 1\<rparr>) \<and>
           concat rest = drop n (concat (seg # segs))"
proof -
  have ne: "seg \<noteq> []" using assms(3,4) by auto
  let ?rest = "if length seg \<le> n then segs else drop n seg # segs"
  have "next_data n (inbox rk) = (take n seg, ?rest)" using ne assms(2) by simp
  moreover have "take n seg \<noteq> []" using ne assms(4) by (cases seg) auto
  ultimately have "recv n rk = (Inr (take n seg), rk\<lparr>inbox := ?rest, recv_calls := recv_calls rk + 1\<rparr>)"
    using assms(1) by (simp add: recv_def)
  moreover have "concat ?rest = drop n (concat (seg # segs))" using assms(3) by simp
  ultimately show ?thesis by blast
qed

lemma receive_json_frame:
  assumes op: "\<not> closed rk" and ib: "inbox rk = seg # segs" and first: "4 \<le> length seg"
    and stream: "concat (seg # segs) = pre @ payload @ rest"
    and pre: "length pre = 4" "from_bytes pre = length payload"
  shows "\<exists>rk'. receive_json L rk =
            ((case decode payload of Inl e \<Rightarrow> Inl e | Inr txt \<Rightarrow> json_loads L txt), rk') \<and>
          concat (inbox rk') = rest \<and> \<not> closed rk' \<and> peer_closes rk' = peer_closes rk"
proof -
  from recv_first_segment [OF op ib first]
  obtain r1 where r: "recv 4 rk = (Inr (take 4 seg), rk\<lparr>inbox := r1, recv_calls := recv_calls rk + 1\<rparr>)"
    and c1: "concat r1 = drop 4 (concat (seg # segs))" by auto
  let ?rk1 = "rk\<lparr>inbox := r1, recv_calls := recv_calls rk + 1\<rparr>"
  have t0: "take 4 (concat (seg # segs)) = take 4 seg" using first by simp
  have "take 4 (concat (seg # segs)) = take 4 (pre @ payload @ rest)" by (simp only: stream)
  also have "\<dots> = pre" using pre(1) by simp
  finally have t4: "take 4 seg = pre" by (simp only: t0)
  have "concat r1 = drop 4 (pre @ payload @ rest)" by (simp only: c1 stream)
  also have "\<dots> = payload @ rest" using pre(1) by simp
  finally have c1': "concat (inbox ?rk1) = payload @ rest" by simp
  have "\<not> closed ?rk1" "length ([]::byte list) \<le> length payload"
    "length payload - length ([]::byte list) \<le> length (concat (inbox ?rk1))"
    using op c1' by simp_all
  from receive_json_loop_complete [OF this]
  obtain rk' where l: "receive_json_loop (length payload) [] ?rk1 =
       (Inr (Some ([] @ take (length payload - length ([]::byte list)) (concat (inbox ?rk1)))), rk')"
    and l2: "concat (inbox rk') = drop (length payload - length ([]::byte list)) (concat (inbox ?rk1))"
    and l3: "\<not> closed rk'" "peer_closes rk' = peer_closes ?rk1" by blast
  have l': "receive_json_loop (length payload) [] ?rk1 = (Inr (Some payload), rk')"
    using l c1' by simp
  have "receive_json L rk =
            ((case decode payload of Inl e \<Rightarrow> Inl e | Inr txt \<Rightarrow> json_loads L txt), rk')"
    using r t4 pre l' by (simp add: receive_json_def split: sum.splits)
  moreover have "concat (inbox rk') = rest" using l2 c1' by simp
  ultimately show ?thesis using l3 by auto
qed

lemma receive_json_short_prefix:
  assumes "\<not> closed rk" "peer_closes rk" "length (concat (inbox rk)) < 4"
  shows "fst (receive_json L rk) = Inr JNull"
proof (cases "concat (inbox rk) = []")
  case True
  from recv_eof [OF assms(1) _ True assms(2), of 4]
  show ?thesis by (simp add: receive_json_def)
next
  case False
  from recv_data [OF assms(1) _ False, of 4]
  obtain chunk rest where r: "recv 4 rk = (Inr chunk, rk\<lparr>inbox := rest, recv_calls := recv_calls rk + 1\<rparr>)"
    and c: "chunk = take (length chunk) (concat (inbox rk))" by auto
  have "length chunk = length (take (length chunk) (concat (inbox rk)))" using c by simp
  then have "length chunk < 4" using assms(3) by simp
  then show ?thesis using r by (simp add: receive_json_def)
qed

lemma receive_json_short_payload:
  assumes op: "\<not> closed rk" and pc: "peer_closes rk" and ib: "inbox rk = seg # segs"
    and first: "4 \<le> length seg"
    and short: "length (concat (seg # segs)) < 4 + from_bytes (take 4 seg)"
  shows "fst (receive_json L rk) = Inr JNull"
proof -
  from recv_first_segment [OF op ib first]
  obtain r1 where r: "recv 4 rk = (Inr (take 4 seg), rk\<lparr>inbox := r1, recv_calls := recv_calls rk + 1\<rparr>)"
    and c1: "concat r1 = drop 4 (concat (seg # segs))" by auto
  let ?rk1 = "rk\<lparr>inbox := r1, recv_calls := recv_calls rk + 1\<rparr>"
  have "length (concat r1) = length (concat (seg # segs)) - 4"
    by (simp only: c1 length_drop)
  moreover have "4 \<le> length (concat (seg # segs))" using first by simp
  ultimately have "length (concat r1) < from_bytes (take 4 seg)" using short by linarith
  then have "\<not> closed ?rk1" "peer_closes ?rk1"
    "length ([]::byte list) + length (concat (inbox ?rk1)) < from_bytes (take 4 seg)"
    using op pc by simp_all
  from receive_json_loop_eof [OF this]
  have "fst (receive_json_loop (from_bytes (take 4 seg)) [] ?rk1) = Inr None" .
  then show ?thesis using r first
    by (cases "receive_json_loop (from_bytes (take 4 seg)) [] ?rk1") (simp add: receive_json_def)
qed

text \<open>
  The prefix is read with a single \<open>recv(4)\<close>: when that read returns fewer than four
  bytes, \<open>_receive_json\<close> returns \<open>None\<close> whatever follows in the stream.
\<close>

lemma receive_json_short_first_read:
  assumes "\<not> closed rk" "inbox rk = seg # segs" "seg \<noteq> []" "length seg < 4"
  shows "fst (receive_json L rk) = Inr JNull"
  using assms by (simp add: receive_json_def recv_def)

text \<open>
  Claim C6, as amended. Let \<open>d\<close> be a value whose JSON text is shorter than \<open>2 ^ 32\<close>
  bytes, is ASCII (as \<open>json.dumps\<close> writes it) and is read back as \<open>d\<close> by \<open>json.loads\<close>.
  On an open, unlimited socket \<open>_send_json\<close> writes a 4-byte prefix whose big-endian value
  is the length of the text, followed by the text. \<open>_receive_json\<close>, applied to a stream
  that starts with that frame and whose first read returns the whole prefix, returns \<open>d\<close>
  and leaves exactly the bytes after the frame unread, however the rest of the stream is
  cut into segments. When the peer closes the stream before four bytes have arrived, or
  after a full prefix but before the announced number of payload bytes,
  \<open>_receive_json\<close> returns \<open>None\<close>.
\<close>

theorem json_frame_roundtrip:
  assumes len: "length (json_dumps L d) < 2 ^ 32"
      and ascii: "\<forall>c\<in>set (json_dumps L d). (of_char c :: nat) < 128"
      and codec: "json_loads L (json_dumps L d) = Inr d"
      and sk: "\<not> closed sk" "send_limit sk = None"
  shows "\<exists>pre. length pre = 4 \<and> from_bytes pre = length (encode (json_dumps L d)) \<and>
           send_json L sk d = (None, sk\<lparr>sent := sent sk @ pre @ encode (json_dumps L d)\<rparr>) \<and>
           (\<forall>rk seg segs rest.
              \<not> closed rk \<longrightarrow> inbox rk = seg # segs \<longrightarrow> 4 \<le> length seg \<longrightarrow>
              concat (seg # segs) = pre @ encode (json_dumps L d) @ rest \<longrightarrow>
              fst (receive_json L rk) = Inr d \<and> concat (inbox (snd (receive_json L rk))) = rest) \<and>
           (\<forall>rk. \<not> closed rk \<longrightarrow> peer_closes rk \<longrightarrow> length (concat (inbox rk)) < 4 \<longrightarrow>
              fst (receive_json L rk) = Inr JNull) \<and>
           (\<forall>rk seg segs.
              \<not> closed rk \<longrightarrow> peer_closes rk \<longrightarrow> inbox rk = seg # segs \<longrightarrow> 4 \<le> length seg \<longrightarrow>
              length (concat (seg # segs)) < 4 + from_bytes (take 4 seg) \<longrightarrow>
              fst (receive_json L rk) = Inr JNull)"
proof -
  let ?payload = "encode (json_dumps L d)"
  from send_json_writes [OF sk len]
  obtain pre where p: "to_bytes4 (length ?payload) = Inr pre"
    and s: "send_json L sk d = (None, sk\<lparr>sent := sent sk @ pre @ ?payload\<rparr>)" by blast
  have p4: "length pre = 4" by (rule to_bytes4_length [OF p])
  have pf: "from_bytes pre = length ?payload" by (rule from_bytes_to_bytes4 [OF p])
  have dec: "decode ?payload = Inr (json_dumps L d)" by (rule decode_encode_ascii [OF ascii])
  have rt: "\<forall>rk seg segs rest.
              \<not> closed rk \<longrightarrow> inbox rk = seg # segs \<longrightarrow> 4 \<le> length seg \<longrightarrow>
              concat (seg # segs) = pre @ ?payload @ rest \<longrightarrow>
              fst (receive_json L rk) = Inr d \<and> concat (inbox (snd (receive_json L rk))) = rest"
  proof (intro allI impI)
    fix rk :: tcp_sock and seg segs rest
    assume a: "\<not> closed rk" "inbox rk = seg # segs" "4 \<le> length seg"
      "concat (seg # segs) = pre @ ?payload @ rest"
    from receive_json_frame [OF a p4 pf, where L = L]
    obtain rk' where "receive_json L rk =
            ((case decode ?payload of Inl e \<Rightarrow> Inl e | Inr txt \<Rightarrow> json_loads L txt), rk')"
      "concat (inbox rk') = rest" by blast
    then show "fst (receive_json L rk) = Inr d \<and> concat (inbox (snd (receive_json L rk))) = rest"
      by (simp add: dec codec)
  qed
  have e1: "\<forall>rk. \<not> closed rk \<longrightarrow> peer_closes rk \<longrightarrow> length (concat (inbox rk)) < 4 \<longrightarrow>
              fst (receive_json L rk) = Inr JNull"
    using receive_json_short_prefix by blast
  have e2: "\<forall>rk seg segs.
              \<not> closed rk \<longrightarrow> peer_closes rk \<longrightarrow> inbox rk = seg # segs \<longrightarrow> 4 \<le> length seg \<longrightarrow>
              length (concat (seg # segs)) < 4 + from_bytes (take 4 seg) \<longrightarrow>
              fst (receive_json L rk) = Inr JNull"
    using receive_json_short_payload by blast
  show ?thesis using p4 pf s rt e1 e2 by blast
qed

lemma dumps_request01:
  "dumps_ascii request01 =
     ''{'' @ quoted ''type'' @ '': '' @ quoted ''session_discovery'' @ '', '' @
      quoted ''session_id'' @ '': '' @ quoted ''jt01'' @ ''}''"
  by (simp add: request01_def discovery_msg_def)

lemma length_long_text: "length long_text = 2 ^ 32"
  by (simp add: long_text_def)

text \<open>
  The claim as stated fails for a dictionary whose JSON text has \<open>2 ^ 32\<close> bytes or more:
  \<open>to_bytes(4)\<close> raises \<open>OverflowError\<close> and nothing is written.
\<close>

theorem send_json_oversize_counterexample:
  "send_json (lib_known []) (fresh_sock [] False) (JObj [(''k'', JStr long_text)]) =
     (Some OverflowError, fresh_sock [] False)"
  by (simp add: send_json_def lib_known_def encode_def quoted_def length_long_text to_bytes4_def)

theorem json_frame_roundtrip_witness:
  "\<exists>pre. length pre = 4 \<and>
     send_json (lib_known [request01]) (fresh_sock [] False) request01 =
       (None, (fresh_sock [] False)\<lparr>sent := pre @ encode (dumps_ascii request01)\<rparr>) \<and>
     fst (receive_json (lib_known [request01])
            (fresh_sock [pre @ take 7 (encode (dumps_ascii request01)),
                         drop 7 (encode (dumps_ascii request01))] False)) = Inr request01 \<and>
     fst (receive_json (lib_known [request01]) (fresh_sock [[0, 0, 0]] True)) = Inr JNull \<and>
     fst (receive_json (lib_known [request01]) (fresh_sock [[0, 0, 0, 9], [123, 125]] True)) = Inr JNull"
proof -
  let ?L = "lib_known [request01]"
  have jd: "json_dumps ?L = dumps_ascii" by (simp add: lib_known_def)
  have len: "length (json_dumps ?L request01) < 2 ^ 32"
    by (simp add: jd dumps_request01 quoted_def)
  have ascii: "\<forall>c\<in>set (json_dumps ?L request01). (of_char c :: nat) < 128"
    by (simp add: jd dumps_request01 quoted_def)
  have codec: "json_loads ?L (json_dumps ?L request01) = Inr request01"
    by (simp add: lib_known_def loads_known_def)
  have sk: "\<not> closed (fresh_sock [] False)" "send_limit (fresh_sock [] False) = None"
    by (simp_all add: fresh_sock_def)
  from json_frame_roundtrip [OF len ascii codec sk]
  obtain pre where p4: "length pre = 4"
    and s: "send_json ?L (fresh_sock [] False) request01 =
       (None, (fresh_sock [] False)\<lparr>sent := sent (fresh_sock [] False) @ pre @ encode (json_dumps ?L request01)\<rparr>)"
    and rt: "\<forall>rk seg segs rest.
              \<not> closed rk \<longrightarrow> inbox rk = seg # segs \<longrightarrow> 4 \<le> length seg \<longrightarrow>
              concat (seg # segs) = pre @ encode (json_dumps ?L request01) @ rest \<longrightarrow>
              fst (receive_json ?L rk) = Inr request01 \<and> concat (inbox (snd (receive_json ?L rk))) = rest"
    and e1: "\<forall>rk. \<not> closed rk \<longrightarrow> peer_closes rk \<longrightarrow> length (concat (inbox rk)) < 4 \<longrightarrow>
              fst (receive_json ?L rk) = Inr JNull"
    and e2: "\<forall>rk seg segs.
              \<not> closed rk \<longrightarrow> peer_closes rk \<longrightarrow> inbox rk = seg # segs \<longrightarrow> 4 \<le> length seg \<longrightarrow>
              length (concat (seg # segs)) < 4 + from_bytes (take 4 seg) \<longrightarrow>
              fst (receive_json ?L rk) = Inr JNull"
    by blast
  let ?pl = "encode (dumps_ascii request01)"
  let ?rk = "fresh_sock [pre @ take 7 ?pl, drop 7 ?pl] False"
  have a: "fst (receive_json ?L ?rk) = Inr request01"
    using rt [rule_format, of ?rk "pre @ take 7 ?pl" "[drop 7 ?pl]" "[]"] p4
    by (simp add: fresh_sock_def jd)
  have b: "fst (receive_json ?L (fresh_sock [[0, 0, 0]] True)) = Inr JNull"
    using e1 [rule_format, of "fresh_sock [[0, 0, 0]] True"] by (simp add: fresh_sock_def)
  have c: "fst (receive_json ?L (fresh_sock [[0, 0, 0, 9], [123, 125]] True)) = Inr JNull"
    using e2 [rule_format, of "fresh_sock [[0, 0, 0, 9], [123, 125]] True" "[0, 0, 0, 9]" "[[123, 125]]"]
    by (simp add: fresh_sock_def from_bytes_def)
  have s': "send_json ?L (fresh_sock [] False) request01 =
       (None, (fresh_sock [] False)\<lparr>sent := pre @ encode (dumps_ascii request01)\<rparr>)"
    using s by (simp add: jd fresh_sock_def)
  show ?thesis using p4 s' a b c by blast
qed

section \<open>Evaluating the concrete documents\<close>

lemma quoted_simp: "quoted s = CHR 0x22 # s @ [CHR 0x22]"
  by (simp add: quoted_def)

lemma dumps_response01:
  "dumps_ascii response01 = ''{'' @ quoted ''type'' @ '': '' @ quoted ''session_response'' @ '', '' @
      quoted ''session_id'' @ '': '' @ quoted ''jt01'' @ '', '' @
      quoted ''endpoint'' @ '': '' @ quoted ''192.168.1.5:45679'' @ ''}''"
  by (simp add: response01_def session_response_def M0_def P2PManager_init_def
        str_nat.simps digit_char_def char_eval)

lemma dumps_metadata_for:
  "dumps_ascii (metadata_for sid) = ''{'' @ quoted ''session_id'' @ '': '' @ quoted sid @ '', '' @
      quoted ''files'' @ '': {'' @ quoted ''e5197d396ac035e03114a12207bf78b6'' @ '': {'' @
      quoted ''path'' @ '': '' @ quoted ''/data/a.txt'' @ '', '' @
      quoted ''name'' @ '': '' @ quoted ''a.txt'' @ '', '' @
      quoted ''size'' @ '': 10, '' @ quoted ''chunks'' @ '': 1, '' @
      quoted ''checksum'' @ '': '' @ quoted ''a63c90cc3684ad8b0a2176a6a8fe9005'' @ ''}}, '' @
      quoted ''total_size'' @ '': 10}''"
  by (simp add: metadata_for_def str_nat.simps digit_char_def char_eval)

lemma loads01_response: "json_loads lib01 (dumps_ascii response01) = Inr response01"
  by (simp add: lib01_def lib_known_def loads_known_def dumps_request01 dumps_response01
        dumps_metadata_for quoted_simp)

section \<open>The discovery client\<close>

lemma discover_session_result:
  "fst (discover_session L env M sid) =
     (if udp_sendto_ok env then
        (case udp_reply env of
           None \<Rightarrow> JNull
         | Some dgram \<Rightarrow>
             (case decode (take 1024 dgram) of
                Inl e \<Rightarrow> JNull
              | Inr txt \<Rightarrow>
                  (case json_loads L txt of
                     Inl e \<Rightarrow> JNull
                   | Inr response \<Rightarrow>
                       (case response_endpoint response sid of
                          Inr (Some endpoint) \<Rightarrow> endpoint
                        | _ \<Rightarrow> JNull))))
      else JNull)"
  by (simp add: discover_session_def Let_def split: option.splits sum.splits)

lemma response_endpoint_nonmatch:
  assumes "\<not> (\<exists>kvs. response = JObj kvs \<and> map_of kvs ''type'' = Some (JStr ''session_response'') \<and>
                 map_of kvs ''session_id'' = Some (JStr sid))"
  shows "response_endpoint response sid = Inr None \<or> (\<exists>e. response_endpoint response sid = Inl e)"
  using assms by (cases response) (auto simp: response_endpoint_def split: option.splits)

text \<open>
  Claim C7. One call of \<open>discover_session\<close> makes exactly one \<open>sendto\<close>, of the
  \<open>session_discovery\<close> request to the broadcast address at the discovery port, on a socket
  with broadcast enabled and a timeout of 5 seconds, and at most one \<open>recvfrom\<close>. When
  the reply is a JSON object of type \<open>session_response\<close> whose \<open>session_id\<close> is the
  requested one, the call returns the reply's endpoint string and closes the socket. On a
  timeout, on a reply that is not UTF-8 or not JSON, and on a reply that is not such an
  object, it returns \<open>None\<close>; nothing is sent or received again. When the broadcast itself
  fails, the call returns \<open>None\<close> without waiting for a reply.
\<close>

theorem discover_session_single_exchange:
  "u_sendto_calls (snd (discover_session L env M sid)) =
      [(encode (json_dumps L (discovery_msg sid)), ''<broadcast>'', discovery_port M)] \<and>
   u_broadcast (snd (discover_session L env M sid)) \<and>
   u_timeout (snd (discover_session L env M sid)) = 5 \<and>
   u_recvfrom_calls (snd (discover_session L env M sid)) \<le> 1 \<and>
   (\<forall>dgram txt kvs ep.
      udp_sendto_ok env \<longrightarrow> udp_reply env = Some dgram \<longrightarrow> decode (take 1024 dgram) = Inr txt \<longrightarrow>
      json_loads L txt = Inr (JObj kvs) \<longrightarrow>
      map_of kvs ''type'' = Some (JStr ''session_response'') \<longrightarrow>
      map_of kvs ''session_id'' = Some (JStr sid) \<longrightarrow>
      map_of kvs ''endpoint'' = Some (JStr ep) \<longrightarrow>
      fst (discover_session L env M sid) = JStr ep \<and> u_closed (snd (discover_session L env M sid))) \<and>
   (udp_reply env = None \<longrightarrow> fst (discover_session L env M sid) = JNull) \<and>
   (\<forall>dgram e. udp_reply env = Some dgram \<longrightarrow> decode (take 1024 dgram) = Inl e \<longrightarrow>
      fst (discover_session L env M sid) = JNull) \<and>
   (\<forall>dgram txt e. udp_reply env = Some dgram \<longrightarrow> decode (take 1024 dgram) = Inr txt \<longrightarrow>
      json_loads L txt = Inl e \<longrightarrow> fst (discover_session L env M sid) = JNull) \<and>
   (\<forall>dgram txt response.
      udp_reply env = Some dgram \<longrightarrow> decode (take 1024 dgram) = Inr txt \<longrightarrow>
      json_loads L txt = Inr response \<longrightarrow>
      \<not> (\<exists>kvs. response = JObj kvs \<and> map_of kvs ''type'' = Some (JStr ''session_response'') \<and>
                 map_of kvs ''session_id'' = Some (JStr sid)) \<longrightarrow>
      fst (discover_session L env M sid) = JNull) \<and>
   (\<not> udp_sendto_ok env \<longrightarrow>
      fst (discover_session L env M sid) = JNull \<and>
      u_recvfrom_calls (snd (discover_session L env M sid)) = 0)"
proof -
  have nm: "fst (discover_session L env M sid) = JNull"
    if a: "udp_reply env = Some dgram" "decode (take 1024 dgram) = Inr s"
      "json_loads L s = Inr response"
      and b: "\<not> (\<exists>kvs. response = JObj kvs \<and> map_of kvs ''type'' = Some (JStr ''session_response'') \<and>
                 map_of kvs ''session_id'' = Some (JStr sid))"
    for dgram s response
    using response_endpoint_nonmatch [OF b] by (auto simp: discover_session_result a)
  show ?thesis
    apply (intro conjI allI impI)
    subgoal by (simp add: discover_session_def Let_def split: option.splits sum.splits)
    subgoal by (simp add: discover_session_def Let_def split: option.splits sum.splits)
    subgoal by (simp add: discover_session_def Let_def split: option.splits sum.splits)
    subgoal by (simp add: discover_session_def Let_def split: option.splits sum.splits)
    subgoal by (simp add: discover_session_result response_endpoint_def)
    subgoal by (simp add: discover_session_def Let_def response_endpoint_def)
    subgoal by (simp add: discover_session_result)
    subgoal by (simp add: discover_session_result)
    subgoal by (simp add: discover_session_result)
    subgoal premises p by (rule nm [OF p])
    subgoal by (simp add: discover_session_result)
    subgoal by (simp add: discover_session_def Let_def)
    done
qed

lemma take_short: "length xs \<le> n \<Longrightarrow> take n xs = xs"
  by simp

lemma decode_response01:
  "decode (take 1024 (encode (dumps_ascii response01))) = Inr (dumps_ascii response01)"
proof -
  have "length (encode (dumps_ascii response01)) \<le> 1024"
    by (simp add: encode_def dumps_response01 quoted_simp)
  then have "take 1024 (encode (dumps_ascii response01)) = encode (dumps_ascii response01)"
    by (rule take_short)
  moreover have "decode (encode (dumps_ascii response01)) = Inr (dumps_ascii response01)"
    by (rule decode_encode_ascii) (simp add: dumps_response01 quoted_simp)
  ultimately show ?thesis by simp
qed

lemma response01_fields:
  "response01 = JObj [(''type'', JStr ''session_response''), (''session_id'', JStr ''jt01''),
                      (''endpoint'', JStr ''192.168.1.5:45679'')]"
  by (simp add: response01_def session_response_def M0_def P2PManager_init_def
        str_nat.simps digit_char_def char_eval)

lemma env01_fields:
  "udp_sendto_ok (env01 segs pc)" "udp_reply (env01 segs pc) = Some (encode (dumps_ascii response01))"
  "mkdir_ok (env01 segs pc)" "open_wb_ok (env01 segs pc) dir nm" "disk (env01 segs pc) = (\<lambda>key. None)"
  "tcp_connect (env01 segs pc) ''192.168.1.5'' 45679 = Some (fresh_sock segs pc)"
  by (simp_all add: env01_def)

theorem discover_session_single_exchange_witness:
  "fst (discover_session lib01 (env01 [] False) M0 ''jt01'') = JStr ''192.168.1.5:45679'' \<and>
   length (u_sendto_calls (snd (discover_session lib01 (env01 [] False) M0 ''jt01''))) = 1 \<and>
   u_recvfrom_calls (snd (discover_session lib01 (env01 [] False) M0 ''jt01'')) \<le> 1 \<and>
   fst (discover_session lib01 ((env01 [] False)\<lparr>udp_reply := None\<rparr>) M0 ''jt0000000000000000'') = JNull \<and>
   fst (discover_session lib01 ((env01 [] False)\<lparr>udp_reply := Some [255]\<rparr>) M0 ''jt01'') = JNull \<and>
   fst (discover_session lib01 (env01 [] False) M0 ''jt02'') = JNull"
proof -
  note t1 = discover_session_single_exchange [of lib01 "env01 [] False" M0 "''jt01''"]
  note t2 = discover_session_single_exchange
               [of lib01 "(env01 [] False)\<lparr>udp_reply := None\<rparr>" M0 "''jt0000000000000000''"]
  note t3 = discover_session_single_exchange
               [of lib01 "(env01 [] False)\<lparr>udp_reply := Some [255]\<rparr>" M0 "''jt01''"]
  note t4 = discover_session_single_exchange [of lib01 "env01 [] False" M0 "''jt02''"]
  have a: "fst (discover_session lib01 (env01 [] False) M0 ''jt01'') = JStr ''192.168.1.5:45679''"
    using t1 env01_fields(1,2) [of "[]" False] decode_response01 loads01_response
    by (simp add: response01_fields)
  have b: "length (u_sendto_calls (snd (discover_session lib01 (env01 [] False) M0 ''jt01''))) = 1"
    "u_recvfrom_calls (snd (discover_session lib01 (env01 [] False) M0 ''jt01'')) \<le> 1"
    using t1 by simp_all
  have c: "fst (discover_session lib01 ((env01 [] False)\<lparr>udp_reply := None\<rparr>) M0 ''jt0000000000000000'') = JNull"
    using t2 by simp
  have "decode (take 1024 [255 :: byte]) = Inl UnicodeDecodeError" by (simp add: decode_def)
  then have d: "fst (discover_session lib01 ((env01 [] False)\<lparr>udp_reply := Some [255]\<rparr>) M0 ''jt01'') = JNull"
    using t3 by simp
  have e: "fst (discover_session lib01 (env01 [] False) M0 ''jt02'') = JNull"
    using t4 env01_fields(1,2) [of "[]" False] decode_response01 loads01_response
    by (simp add: response01_fields)
  show ?thesis using a b c d e by simp
qed

section \<open>The receiver\<close>

lemma receive_json_whole_frame:
  assumes op: "\<not> closed rk" and ib: "inbox rk = (pre @ payload) # segs"
    and pre: "length pre = 4" "from_bytes pre = length payload" and ne: "payload \<noteq> []"
  shows "receive_json L rk =
           ((case decode payload of Inl e \<Rightarrow> Inl e | Inr s \<Rightarrow> json_loads L s),
            rk\<lparr>inbox := segs, recv_calls := recv_calls rk + 2\<rparr>)"
proof -
  have pne: "pre \<noteq> []" using pre(1) by auto
  have r1: "recv 4 rk = (Inr pre, rk\<lparr>inbox := payload # segs, recv_calls := recv_calls rk + 1\<rparr>)"
    using op ib pre(1) ne pne by (simp add: recv_def)
  let ?rk1 = "rk\<lparr>inbox := payload # segs, recv_calls := recv_calls rk + 1\<rparr>"
  have r2: "recv (length payload) ?rk1 =
              (Inr payload, rk\<lparr>inbox := segs, recv_calls := recv_calls rk + 2\<rparr>)"
    using op ne by (simp add: recv_def)
  have l: "receive_json_loop (length payload) [] ?rk1 =
             (Inr (Some payload), rk\<lparr>inbox := segs, recv_calls := recv_calls rk + 2\<rparr>)"
    using ne r2
    by (subst receive_json_loop.simps, simp, subst receive_json_loop.simps, simp)
  show ?thesis using r1 l pre by (simp add: receive_json_def split: sum.splits)
qed

lemma frame_of_split:
  assumes "length (json_dumps L d) < 2 ^ 32"
  shows "\<exists>pre. frame_of L d = pre @ encode (json_dumps L d) \<and> length pre = 4 \<and>
           from_bytes pre = length (encode (json_dumps L d))"
proof -
  have "\<not> closed (fresh_sock [] False)" "send_limit (fresh_sock [] False) = None"
    by (simp_all add: fresh_sock_def)
  from send_json_writes [OF this assms]
  obtain pre where p: "to_bytes4 (length (encode (json_dumps L d))) = Inr pre"
    and s: "send_json L (fresh_sock [] False) d =
              (None, (fresh_sock [] False)\<lparr>sent := sent (fresh_sock [] False) @ pre @ encode (json_dumps L d)\<rparr>)"
    by blast
  have "frame_of L d = pre @ encode (json_dumps L d)"
    unfolding frame_of_def s by (simp add: fresh_sock_def)
  with to_bytes4_length [OF p] from_bytes_to_bytes4 [OF p] show ?thesis by blast
qed

lemma receive_json_frame_of:
  assumes len: "length (json_dumps L d) < 2 ^ 32" and ne: "json_dumps L d \<noteq> []"
    and ascii: "\<forall>c\<in>set (json_dumps L d). (of_char c :: nat) < 128"
    and op: "\<not> closed rk" and ib: "inbox rk = frame_of L d # segs"
  shows "receive_json L rk =
           (json_loads L (json_dumps L d), rk\<lparr>inbox := segs, recv_calls := recv_calls rk + 2\<rparr>)"
proof -
  from frame_of_split [OF len] obtain pre where
    f: "frame_of L d = pre @ encode (json_dumps L d)" and p: "length pre = 4"
    "from_bytes pre = length (encode (json_dumps L d))" by blast
  have ne': "encode (json_dumps L d) \<noteq> []" using ne by (simp add: encode_def)
  have ib': "inbox rk = (pre @ encode (json_dumps L d)) # segs" using ib f by simp
  from receive_json_whole_frame [OF op ib' p ne', of L] decode_encode_ascii [OF ascii]
  show ?thesis by simp
qed

lemma lib01_dumps: "json_dumps lib01 = dumps_ascii"
  by (simp add: lib01_def lib_known_def)

lemma loads01_metadata:
  "json_loads lib01 (dumps_ascii (metadata_for ''jt01'')) = Inr (metadata_for ''jt01'')"
  "json_loads lib01 (dumps_ascii (metadata_for ''jt02'')) = Inr (metadata_for ''jt02'')"
  by (simp_all add: lib01_def lib_known_def loads_known_def dumps_request01 dumps_response01
        dumps_metadata_for quoted_simp)

lemma receive_metadata01:
  "receive_json lib01 (fresh_sock (frame_of lib01 (metadata_for ''jt01'') # segs) pc) =
     (Inr (metadata_for ''jt01''), (fresh_sock segs pc)\<lparr>recv_calls := 2\<rparr>)"
proof -
  have "receive_json lib01 (fresh_sock (frame_of lib01 (metadata_for ''jt01'') # segs) pc) =
          (json_loads lib01 (json_dumps lib01 (metadata_for ''jt01'')),
           (fresh_sock (frame_of lib01 (metadata_for ''jt01'') # segs) pc)
             \<lparr>inbox := segs, recv_calls := recv_calls (fresh_sock (frame_of lib01 (metadata_for ''jt01'') # segs) pc) + 2\<rparr>)"
    by (rule receive_json_frame_of)
       (simp_all add: lib01_dumps dumps_metadata_for quoted_simp fresh_sock_def)
  then show ?thesis by (simp add: lib01_dumps loads01_metadata fresh_sock_def)
qed

lemma receive_metadata02:
  "receive_json lib01 (fresh_sock (frame_of lib01 (metadata_for ''jt02'') # segs) pc) =
     (Inr (metadata_for ''jt02''), (fresh_sock segs pc)\<lparr>recv_calls := 2\<rparr>)"
proof -
  have "receive_json lib01 (fresh_sock (frame_of lib01 (metadata_for ''jt02'') # segs) pc) =
          (json_loads lib01 (json_dumps lib01 (metadata_for ''jt02'')),
           (fresh_sock (frame_of lib01 (metadata_for ''jt02'') # segs) pc)
             \<lparr>inbox := segs, recv_calls := recv_calls (fresh_sock (frame_of lib01 (metadata_for ''jt02'') # segs) pc) + 2\<rparr>)"
    by (rule receive_json_frame_of)
       (simp_all add: lib01_dumps dumps_metadata_for quoted_simp fresh_sock_def)
  then show ?thesis by (simp add: lib01_dumps loads01_metadata fresh_sock_def)
qed

lemma discover01:
  "fst (discover_session lib01 (env01 segs pc) M0 ''jt01'') = JStr ''192.168.1.5:45679''"
  using env01_fields(1,2) [of segs pc] decode_response01 loads01_response
  by (simp add: discover_session_result response01_fields response_endpoint_def)

lemma split_endpoint01: "split_endpoint ''192.168.1.5:45679'' = Inr (''192.168.1.5'', ''45679'')"
  by (simp add: split_endpoint_def)

lemma py_int01: "py_int lib01 ''45679'' = Inr 45679"
  by (simp add: lib01_def lib_known_def int_decimal_def)

text \<open>
  Claim C5. Let discovery have given an endpoint to which the receiver connects. When
  \<open>_receive_json\<close> returns \<open>None\<close> for the metadata frame, or returns a dict whose
  \<open>session_id\<close> is missing or differs from the requested one, \<open>receive_files\<close> returns
  \<open>False\<close>, on either transport. The connection is left exactly as the metadata read
  left it, but closed: no further \<open>recv\<close> was made, no destination file was created or
  written, and the progress callback was not called.
\<close>

theorem receive_files_rejects_metadata:
  assumes disc: "fst (discover_session L env M sid) = JStr ep" "ep \<noteq> []"
    and conn: "split_endpoint ep = Inr (host, port_text)" "py_int L port_text = Inr port"
      "tcp_connect env host port = Some client"
    and meta: "receive_json L client = (Inr metadata, sk)"
    and bad: "metadata = JNull \<or>
              (\<exists>kvs. metadata = JObj kvs \<and> map_of kvs ''session_id'' \<noteq> Some (JStr sid))"
  shows "receive_files L webrtc env M sid download_dir cb =
           \<lparr>r_returned = False, r_sock = Some (sk\<lparr>closed := True\<rparr>), r_disk = disk env,
            r_progress = []\<rparr>"
proof -
  have rej: "metadata_rejected metadata sid = Inr True"
    using bad by (auto simp: metadata_rejected_def split: option.splits)
  have "receive_files_direct L env sid download_dir (JStr ep) cb =
           \<lparr>r_returned = False, r_sock = Some (sk\<lparr>closed := True\<rparr>), r_disk = disk env,
            r_progress = []\<rparr>"
    using conn meta rej by (simp add: receive_files_direct_def recv_failed_def close_sock_def)
  moreover obtain e u where d: "discover_session L env M sid = (e, u)"
    by (cases "discover_session L env M sid")
  ultimately show ?thesis using disc
    by (simp add: receive_files_def receive_files_webrtc_def)
qed

theorem receive_files_rejects_metadata_witness:
  "r_returned (receive_files lib01 False
       (env01 [frame_of lib01 (metadata_for ''jt02''), [1, 2, 3]] False) M0 ''jt01'' ''/downloads'' True) = False \<and>
   r_sock (receive_files lib01 False
       (env01 [frame_of lib01 (metadata_for ''jt02''), [1, 2, 3]] False) M0 ''jt01'' ''/downloads'' True) =
     Some ((fresh_sock [[1, 2, 3]] False)\<lparr>recv_calls := 2, closed := True\<rparr>) \<and>
   r_disk (receive_files lib01 False
       (env01 [frame_of lib01 (metadata_for ''jt02''), [1, 2, 3]] False) M0 ''jt01'' ''/downloads'' True)
      (''/downloads'', ''a.txt'') = None"
proof -
  let ?env = "env01 [frame_of lib01 (metadata_for ''jt02''), [1, 2, 3]] False"
  have bad: "metadata_for ''jt02'' = JNull \<or>
              (\<exists>kvs. metadata_for ''jt02'' = JObj kvs \<and> map_of kvs ''session_id'' \<noteq> Some (JStr ''jt01''))"
    by (simp add: metadata_for_def)
  have ne: "''192.168.1.5:45679'' \<noteq> []" by simp
  from receive_files_rejects_metadata [OF discover01 ne split_endpoint01 py_int01
         env01_fields(6) receive_metadata02 bad,
         where webrtc = False and download_dir = "''/downloads''" and cb = True]
  show ?thesis by (simp add: env01_fields)
qed

lemma receive_files_direct01:
  "receive_files lib01 False (env01 segs pc) M0 ''jt01'' dir cb =
   receive_files_direct lib01 (env01 segs pc) ''jt01'' dir (JStr ''192.168.1.5:45679'') cb"
proof -
  obtain e u where d: "discover_session lib01 (env01 segs pc) M0 ''jt01'' = (e, u)"
    by (cases "discover_session lib01 (env01 segs pc) M0 ''jt01''")
  with discover01 [of segs pc] have "e = JStr ''192.168.1.5:45679''" by simp
  then show ?thesis by (simp add: receive_files_def d)
qed

lemma truncated_loop:
  "recv_file_loop False ''a.txt'' 10 (JInt 10) (''/downloads'', ''a.txt'') 0
     \<lparr>rs_sock = (fresh_sock [[1, 2, 3, 4]] True)\<lparr>recv_calls := 2\<rparr>,
      rs_disk = (\<lambda>key. None)((''/downloads'', ''a.txt'') \<mapsto> []),
      rs_received = 0, rs_progress = []\<rparr> =
   (None,
    \<lparr>rs_sock = (fresh_sock [] True)\<lparr>recv_calls := 4\<rparr>,
     rs_disk = (\<lambda>key. None)((''/downloads'', ''a.txt'') \<mapsto> [1, 2, 3, 4]),
     rs_received = 4, rs_progress = []\<rparr>)"
  apply (subst recv_file_loop.simps)
  apply (simp add: recv_def fresh_sock_def write_chunk_def)
  apply (subst recv_file_loop.simps)
  apply (simp add: recv_def fresh_sock_def write_chunk_def)
  done

lemma metadata01_items:
  "dict_item (metadata_for ''jt01'') ''files'' =
     Inr (JObj [(''e5197d396ac035e03114a12207bf78b6'',
                 JObj [(''path'', JStr ''/data/a.txt''), (''name'', JStr ''a.txt''),
                       (''size'', JInt 10), (''chunks'', JInt 1),
                       (''checksum'', JStr ''a63c90cc3684ad8b0a2176a6a8fe9005'')])])"
  "dict_item (metadata_for ''jt01'') ''total_size'' = Inr (JInt 10)"
  "metadata_rejected (metadata_for ''jt01'') ''jt01'' = Inr False"
  by (simp_all add: metadata_for_def metadata_rejected_def)

text \<open>
  Claim C1 does not hold of the code. The metadata announces one file \<open>a.txt\<close> of 10
  bytes; the sender's stream carries 4 bytes and is then closed. The zero-length read
  leaves the inner loop with \<open>break\<close>, the outer loop ends, and \<open>receive_files\<close>
  returns \<open>True\<close> with a 4-byte \<open>a.txt\<close> at the destination.
\<close>

theorem receive_files_truncated_stream:
  "r_returned (receive_files lib01 False
       (env01 [frame_of lib01 (metadata_for ''jt01''), [1, 2, 3, 4]] True) M0 ''jt01'' ''/downloads'' False) = True \<and>
   r_disk (receive_files lib01 False
       (env01 [frame_of lib01 (metadata_for ''jt01''), [1, 2, 3, 4]] True) M0 ''jt01'' ''/downloads'' False)
     (''/downloads'', ''a.txt'') = Some [1, 2, 3, 4]"
  unfolding receive_files_direct01
  by (simp add: receive_files_direct_def split_endpoint01 py_int01 env01_fields
        receive_metadata01 metadata01_items truncated_loop close_sock_def)

section \<open>Session creation with missing paths\<close>





section \<open>Checksum verification\<close>

lemma concat_read_chunks: "0 < n \<Longrightarrow> concat (read_chunks n bs) = bs"
proof (induction n bs rule: read_chunks.induct)
  case (1 n bs)
  show ?case
  proof (cases "bs = []")
    case True
    then show ?thesis by (simp add: read_chunks.simps)
  next
    case False
    with 1 have "concat (read_chunks n (drop n bs)) = drop n bs" by simp
    then show ?thesis using False 1(2) by (subst read_chunks.simps) simp
  qed
qed

text \<open>
  Claim C9, as amended. \<open>FileManager.verify_file_integrity\<close> succeeds when the expected
  checksum is empty; otherwise it compares the expected value for exact equality with the
  checksum of \<open>FileInfo\<close>, which is the recomputed MD5 digest for an existing, readable
  file under 100 MiB and the empty string in every other case. \<open>utils.verify_checksum\<close>
  recomputes the MD5 or SHA-256 digest of a readable file and compares it with the
  expected value after lower-casing both, with no special case for an empty expected
  value; it returns \<open>False\<close> when the file is missing or unreadable or the algorithm
  is neither \<open>md5\<close> nor \<open>sha256\<close>.
\<close>

theorem checksum_verification:
  "verify_file_integrity L fs p [] = True \<and>
   (expected \<noteq> [] \<longrightarrow>
      verify_file_integrity L fs p expected = (fi_checksum (FileInfo_init L fs p) = expected)) \<and>
   (\<forall>f. fs p = Some f \<longrightarrow> readable f \<longrightarrow> length (content f) < 100 * 1024 * 1024 \<longrightarrow>
      fi_checksum (FileInfo_init L fs p) = md5_hexdigest L (content f)) \<and>
   (\<forall>f. fs p = Some f \<longrightarrow> \<not> (readable f \<and> length (content f) < 100 * 1024 * 1024) \<longrightarrow>
      fi_checksum (FileInfo_init L fs p) = []) \<and>
   (fs p = None \<longrightarrow> fi_checksum (FileInfo_init L fs p) = []) \<and>
   (\<forall>f. fs p = Some f \<longrightarrow> readable f \<longrightarrow>
      verify_checksum L fs p expected ''md5'' =
        (lower (md5_hexdigest L (content f)) = lower expected) \<and>
      verify_checksum L fs p expected ''sha256'' =
        (lower (sha256_hexdigest L (content f)) = lower expected)) \<and>
   ((fs p = None \<or> (\<exists>f. fs p = Some f \<and> \<not> readable f)) \<longrightarrow>
      verify_checksum L fs p expected algorithm = False) \<and>
   (algorithm \<noteq> ''md5'' \<longrightarrow> algorithm \<noteq> ''sha256'' \<longrightarrow>
      verify_checksum L fs p expected algorithm = False)"
  by (auto simp: verify_file_integrity_def FileInfo_init_def FileInfo_calculate_checksum_def
        path_exists_def os_stat_size_def st_size_def open_rb_def verify_checksum_def
        concat_read_chunks)

lemma lower_upper_md5_empty:
  "lower ''D41D8CD98F00B204E9800998ECF8427E'' = ''d41d8cd98f00b204e9800998ecf8427e''"
  by (simp add: lower_def lower_char_def char_eval)

lemma lower_md5_empty:
  "lower ''d41d8cd98f00b204e9800998ecf8427e'' = ''d41d8cd98f00b204e9800998ecf8427e''"
  by (simp add: lower_def lower_char_def)

lemma lower_Nil: "lower [] = []"
  by (simp add: lower_def)

lemma fs2_empty: "fs2 ''/data/empty.txt'' = Some \<lparr>content = [], readable = True\<rparr>"
  by (simp add: fs2_def)

text \<open>
  Neither function does both things the claim says. For the empty file, whose MD5 digest
  is \<open>d41d8cd98f00b204e9800998ecf8427e\<close>, \<open>verify_file_integrity\<close> rejects the digest
  written in upper case, and \<open>verify_checksum\<close> rejects the empty expected value.
\<close>

theorem checksum_verification_counterexample:
  "lower ''D41D8CD98F00B204E9800998ECF8427E'' = lower (md5_hexdigest (lib_known []) []) \<and>
   verify_file_integrity (lib_known []) fs2 ''/data/empty.txt'' ''D41D8CD98F00B204E9800998ECF8427E'' = False \<and>
   verify_checksum (lib_known []) fs2 ''/data/empty.txt'' [] ''md5'' = False"
  by (simp add: lower_upper_md5_empty lower_md5_empty lib_known_def md5_known_def
        verify_file_integrity_def FileInfo_init_def FileInfo_calculate_checksum_def
        path_exists_def os_stat_size_def st_size_def open_rb_def verify_checksum_def
        fs2_empty read_chunks.simps lower_Nil)

theorem checksum_verification_witness:
  "verify_file_integrity (lib_known []) fs2 ''/data/empty.txt'' ''d41d8cd98f00b204e9800998ecf8427e'' = True \<and>
   verify_checksum (lib_known []) fs2 ''/data/empty.txt'' ''D41D8CD98F00B204E9800998ECF8427E'' ''md5'' = True \<and>
   verify_checksum (lib_known []) fs2 ''/data/missing.txt'' ''D41D8CD98F00B204E9800998ECF8427E'' ''md5'' = False"
proof -
  note t = checksum_verification [of "lib_known []" fs2 "''/data/empty.txt''" _ "''md5''"]
  have md: "md5_hexdigest (lib_known []) [] = ''d41d8cd98f00b204e9800998ecf8427e''"
    by (simp add: lib_known_def md5_known_def)
  have a: "verify_file_integrity (lib_known []) fs2 ''/data/empty.txt'' ''d41d8cd98f00b204e9800998ecf8427e'' = True"
    using t [of "''d41d8cd98f00b204e9800998ecf8427e''"] fs2_empty by (simp add: md)
  have b: "verify_checksum (lib_known []) fs2 ''/data/empty.txt'' ''D41D8CD98F00B204E9800998ECF8427E'' ''md5'' = True"
    using t [of "''D41D8CD98F00B204E9800998ECF8427E''"] fs2_empty
    by (simp add: md lower_upper_md5_empty lower_md5_empty)
  have "fs2 ''/data/missing.txt'' = None" by (simp add: fs2_def)
  then have c: "verify_checksum (lib_known []) fs2 ''/data/missing.txt'' ''D41D8CD98F00B204E9800998ECF8427E'' ''md5'' = False"
    using checksum_verification [of "lib_known []" fs2 "''/data/missing.txt''"
            "''D41D8CD98F00B204E9800998ECF8427E''" "''md5''"] by simp
  show ?thesis using a b c by simp
qed

section \<open>The discovery server\<close>

lemma create_session_fields:
  "local_ip (snd (create_session L fs M sid fl)) = local_ip M"
  "transfer_port (snd (create_session L fs M sid fl)) = transfer_port M"
  "discovery_port (snd (create_session L fs M sid fl)) = discovery_port M"
proof -
  show "local_ip (snd (create_session L fs M sid fl)) = local_ip M"
    using create_session_registers [of fl fs L M sid] create_session_fails [of fl fs L M sid]
    by (cases "\<forall>p\<in>set fl. path_exists fs p \<longrightarrow> encodable p") (auto simp: logger_def)
  show "transfer_port (snd (create_session L fs M sid fl)) = transfer_port M"
    using create_session_registers [of fl fs L M sid] create_session_fails [of fl fs L M sid]
    by (cases "\<forall>p\<in>set fl. path_exists fs p \<longrightarrow> encodable p") (auto simp: logger_def)
  show "discovery_port (snd (create_session L fs M sid fl)) = discovery_port M"
    using create_session_registers [of fl fs L M sid] create_session_fails [of fl fs L M sid]
    by (cases "\<forall>p\<in>set fl. path_exists fs p \<longrightarrow> encodable p") (auto simp: logger_def)
qed

lemma create_session_registered:
  "\<forall>p\<in>set fl. path_exists fs p \<longrightarrow> encodable p \<Longrightarrow>
   sessions (snd (create_session L fs M sid fl)) sid \<noteq> None"
  using create_session_registers [of fl fs L M sid] by (auto simp: logger_def)

text \<open>
  The handler sends a reply only for a JSON object of type \<open>session_discovery\<close> whose
  \<open>session_id\<close> is a registered session, and the reply is the \<open>session_response\<close> with
  this host's endpoint; there is no other reply. A datagram that decodes as text but is
  not JSON is skipped and the loop goes on.
\<close>

lemma handle_reply_only_registered:
  assumes "handle_discovery_message L M message addr = Inr (Some reply)"
  shows "\<exists>kvs s. json_loads L message = Inr (JObj kvs) \<and>
           map_of kvs ''type'' = Some (JStr ''session_discovery'') \<and>
           map_of kvs ''session_id'' = Some (JStr s) \<and> sessions M s \<noteq> None \<and>
           reply = (encode (json_dumps L (session_response M (JStr s))), addr)"
proof -
  from assms obtain data where d: "json_loads L message = Inr data"
    by (auto simp: handle_discovery_message_def split: sum.splits if_splits)
  from assms d obtain kvs where k: "data = JObj kvs"
    by (cases data) (auto simp: handle_discovery_message_def)
  from assms d k have ty: "map_of kvs ''type'' = Some (JStr ''session_discovery'')"
    by (auto simp: handle_discovery_message_def split: option.splits if_splits)
  from assms d k ty obtain v where v: "map_of kvs ''session_id'' = Some v"
    by (auto simp: handle_discovery_message_def split: option.splits if_splits)
  from assms d k ty v obtain s where s: "v = JStr s"
    by (cases v) (auto simp: handle_discovery_message_def)
  from assms d k ty v s have "sessions M s \<noteq> None"
    "reply = (encode (json_dumps L (session_response M (JStr s))), addr)"
    by (auto simp: handle_discovery_message_def split: if_splits)
  with d k ty v s show ?thesis by blast
qed

lemma worker_skips_invalid_json:
  assumes "w_alive st" "decode (take 1024 data) = Inr message"
    "json_loads L message = Inl JSONDecodeError"
  shows "discovery_worker L (Datagram data addr # evs) st = discovery_worker L evs st"
  using assms by (simp add: handle_discovery_message_def)

lemma worker_stops_on_undecodable:
  assumes "w_alive st" "decode (take 1024 data) = Inl e"
  shows "discovery_worker L (Datagram data addr # evs) st =
           st\<lparr>w_alive := False, w_manager := logger Error ''Discovery service error'' (w_manager st)\<rparr>"
  using assms by simp

lemma decode_request01:
  "decode (take 1024 (encode (dumps_ascii request01))) = Inr (dumps_ascii request01)"
proof -
  have "length (encode (dumps_ascii request01)) \<le> 1024"
    by (simp add: encode_def dumps_request01 quoted_simp)
  then have "take 1024 (encode (dumps_ascii request01)) = encode (dumps_ascii request01)"
    by (rule take_short)
  moreover have "decode (encode (dumps_ascii request01)) = Inr (dumps_ascii request01)"
    by (rule decode_encode_ascii) (simp add: dumps_request01 quoted_simp)
  ultimately show ?thesis by simp
qed

lemma loads01_request: "json_loads lib01 (dumps_ascii request01) = Inr request01"
  by (simp add: lib01_def lib_known_def loads_known_def)

lemma handle_request01:
  assumes reg: "sessions M ''jt01'' \<noteq> None"
    and same: "local_ip M = local_ip M0" "transfer_port M = transfer_port M0"
  shows "handle_discovery_message lib01 M (dumps_ascii request01) addr =
     Inr (Some (encode (dumps_ascii response01), addr))"
proof -
  have resp: "session_response M (JStr ''jt01'') = response01"
    by (simp add: session_response_def response01_def same)
  have g: "dict_get request01 ''type'' = Inr (JStr ''session_discovery'')"
    "dict_get request01 ''session_id'' = Inr (JStr ''jt01'')"
    by (simp_all add: request01_def discovery_msg_def)
  have r: "session_registered M (JStr ''jt01'') = Inr True" using reg by simp
  show ?thesis
    using reg by (simp add: handle_discovery_message_def loads01_request g resp lib01_dumps)
qed

text \<open>
  Claim C8 does not hold of the code for a datagram that is not UTF-8. With session
  \<open>jt01\<close> registered, a discovery request alone is answered. When the byte \<open>0xFF\<close>
  arrives first, \<open>data.decode()\<close> raises outside the handler's \<open>try\<close>, the loop's
  \<open>except Exception\<close> logs an error and leaves the loop, and the request that follows
  is never answered.
\<close>

theorem discovery_worker_killed_by_bad_datagram:
  "w_replies (discovery_worker lib01 [Datagram (encode (dumps_ascii request01)) peer01]
                (start_discovery_service M_empty)) =
     [(encode (dumps_ascii response01), peer01)] \<and>
   w_replies (discovery_worker lib01
                [Datagram [255] peer01, Datagram (encode (dumps_ascii request01)) peer01]
                (start_discovery_service M_empty)) = [] \<and>
   w_alive (discovery_worker lib01
                [Datagram [255] peer01, Datagram (encode (dumps_ascii request01)) peer01]
                (start_discovery_service M_empty)) = False \<and>
   log (w_manager (discovery_worker lib01
                [Datagram [255] peer01, Datagram (encode (dumps_ascii request01)) peer01]
                (start_discovery_service M_empty))) =
     log M_empty @ [(Error, ''Discovery service error'')]"
proof -
  have bad: "decode [255 :: byte] = Inl UnicodeDecodeError" by (simp add: decode_def)
  have h: "handle_discovery_message lib01 (M_empty\<lparr>running := True\<rparr>) (dumps_ascii request01) peer01 =
     Inr (Some (encode (dumps_ascii response01), peer01))"
    by (rule handle_request01)
       (simp_all add: M_empty_def create_session_fields create_session_registered encodable_def)
  show ?thesis
    by (simp add: start_discovery_service_def decode_request01 bad h logger_def)
qed

section \<open>The sender\<close>

lemma add_transferred_add:
  "add_transferred k (add_transferred c s) = add_transferred (c + k) s"
  by (simp add: add_transferred_def add.assoc)

lemma add_transferred_fields:
  "total_size (add_transferred k s) = total_size s"
  "transferred_size (add_transferred k s) = transferred_size s + k"
  "file_metadata (add_transferred k s) = file_metadata s"
  "session_id (add_transferred k s) = session_id s"
  by (simp_all add: add_transferred_def)

lemma add_transferred_0: "add_transferred 0 s = s"
  by (simp add: add_transferred_def)

lemma sendall_socket:
  "sendall bs sk = (r, sk') \<Longrightarrow> closed sk' = closed sk \<and> send_limit sk' = send_limit sk"
  by (auto simp: sendall_def split: if_splits option.splits)

lemma sendall_ok: "\<not> closed sk \<Longrightarrow> send_limit sk = None \<Longrightarrow>
   sendall bs sk = (None, sk\<lparr>sent := sent sk @ bs\<rparr>)"
  by (simp add: sendall_def)

lemma sent_step_refl: "sent_step st 0 st"
  by (simp add: sent_step_def add_transferred_0)

lemma sent_step_trans:
  assumes "sent_step st a st1" "sent_step st1 b st2"
  shows "sent_step st (a + b) st2"
proof -
  have s: "ss_session st2 = add_transferred (a + b) (ss_session st)"
    using assms by (simp add: sent_step_def add_transferred_add)
  have p: "\<forall>e\<in>set (ss_progress st2).
        e \<in> set (ss_progress st) \<or>
        (\<exists>t. t \<le> transferred_size (ss_session st) + (a + b) \<and>
             progress_pct t (total_size (ss_session st)) = Inr (fst e))"
  proof
    fix e assume "e \<in> set (ss_progress st2)"
    with assms(2) consider "e \<in> set (ss_progress st1)"
      | t where "t \<le> transferred_size (ss_session st1) + b"
          "progress_pct t (total_size (ss_session st1)) = Inr (fst e)"
      by (auto simp: sent_step_def)
    then show "e \<in> set (ss_progress st) \<or>
        (\<exists>t. t \<le> transferred_size (ss_session st) + (a + b) \<and>
             progress_pct t (total_size (ss_session st)) = Inr (fst e))"
    proof cases
      case 1
      with assms(1) show ?thesis by (fastforce simp: sent_step_def)
    next
      case 2
      with assms(1) show ?thesis
        by (auto simp: sent_step_def add_transferred_fields intro!: exI [of _ t])
    qed
  qed
  show ?thesis using assms s p by (simp add: sent_step_def)
qed


lemma sent_step_one:
  assumes "ss_session st1 = add_transferred c (ss_session st)"
    and "closed (ss_sock st1) = closed (ss_sock st)" "send_limit (ss_sock st1) = send_limit (ss_sock st)"
    and "set (ss_progress st1) \<subseteq> set (ss_progress st) \<union>
           {e. progress_pct (transferred_size (ss_session st) + c) (total_size (ss_session st)) = Inr (fst e)}"
  shows "sent_step st c st1"
  using assms by (fastforce simp: sent_step_def)

lemma send_file_loop_inv:
  "\<exists>k. k \<le> length unread \<and>
       sent_step st k (snd (send_file_loop cb nm fsz unread n st)) \<and>
       (\<not> cb \<longrightarrow> \<not> closed (ss_sock st) \<longrightarrow> send_limit (ss_sock st) = None \<longrightarrow>
          fst (send_file_loop cb nm fsz unread n st) = None)"
proof (induction cb nm fsz unread n st rule: send_file_loop.induct)
  case (1 cb nm fsz unread n st)
  let ?chunk = "take 8192 unread"
  let ?c = "length ?chunk"
  show ?case
  proof (cases "n < fsz \<and> ?chunk \<noteq> []")
    case False
    then have res: "send_file_loop cb nm fsz unread n st = (None, st)"
      by (subst send_file_loop.simps) auto
    show ?thesis unfolding res using sent_step_refl [of st] by (intro exI [of _ 0]) simp
  next
    case True
    then have lt: "n < fsz" and ne: "?chunk \<noteq> []" by auto
    obtain r sk where sa: "sendall ?chunk (ss_sock st) = (r, sk)" by (cases "sendall ?chunk (ss_sock st)")
    note sock = sendall_socket [OF sa]
    show ?thesis
    proof (cases r)
      case (Some e)
      then have res: "send_file_loop cb nm fsz unread n st = (Some e, st\<lparr>ss_sock := sk\<rparr>)"
        using lt ne sa by (subst send_file_loop.simps) simp
      have "sent_step st 0 (st\<lparr>ss_sock := sk\<rparr>)"
        using sock by (intro sent_step_one) (simp_all add: add_transferred_0)
      moreover have "\<not> closed (ss_sock st) \<longrightarrow> send_limit (ss_sock st) = None \<longrightarrow> False"
      proof (intro impI)
        assume a: "\<not> closed (ss_sock st)" and b: "send_limit (ss_sock st) = None"
        from sendall_ok [OF a b, of ?chunk] sa Some show False by simp
      qed
      ultimately show ?thesis unfolding res by (intro exI [of _ 0]) auto
    next
      case None
      note sa' = sa [unfolded None]
      have split: "?c + length (drop 8192 unread) = length unread" by simp
      show ?thesis
      proof (cases cb)
        case False
        let ?st1 = "st\<lparr>ss_sock := sk, ss_session := add_transferred ?c (ss_session st)\<rparr>"
        have res: "send_file_loop cb nm fsz unread n st =
                     send_file_loop cb nm fsz (drop 8192 unread) (n + ?c) ?st1"
          using lt ne sa' False by (subst send_file_loop.simps) simp
        from 1(2) [OF lt ne sa' [symmetric] refl False]
        obtain k where kk: "k \<le> length (drop 8192 unread) \<and>
          sent_step ?st1 k (snd (send_file_loop cb nm fsz (drop 8192 unread) (n + ?c) ?st1)) \<and>
          (\<not> cb \<longrightarrow> \<not> closed (ss_sock ?st1) \<longrightarrow> send_limit (ss_sock ?st1) = None \<longrightarrow>
             fst (send_file_loop cb nm fsz (drop 8192 unread) (n + ?c) ?st1) = None)" ..
        note k = kk [THEN conjunct1] kk [THEN conjunct2, THEN conjunct1]
          kk [THEN conjunct2, THEN conjunct2]
        have one: "sent_step st ?c ?st1" using sock by (intro sent_step_one) simp_all
        have g1: "?c + k \<le> length unread" using k(1) split by linarith
        have g2: "sent_step st (?c + k) (snd (send_file_loop cb nm fsz unread n st))"
          by (simp only: res) (rule sent_step_trans [OF one k(2)])
        have g3: "\<not> cb \<longrightarrow> \<not> closed (ss_sock st) \<longrightarrow> send_limit (ss_sock st) = None \<longrightarrow>
          fst (send_file_loop cb nm fsz unread n st) = None"
        proof (intro impI)
          assume a: "\<not> cb" "\<not> closed (ss_sock st)" "send_limit (ss_sock st) = None"
          have b: "\<not> closed (ss_sock ?st1)" "send_limit (ss_sock ?st1) = None"
            using sock a(2,3) by simp_all
          from k(3) [rule_format, OF a(1) b]
          show "fst (send_file_loop cb nm fsz unread n st) = None" by (simp only: res)
        qed
        show ?thesis by (rule exI [of _ "?c + k"]) (intro conjI g1 g2 g3)
      next
        case True
        let ?pp = "progress_pct (transferred_size (ss_session st) + ?c) (total_size (ss_session st))"
        show ?thesis
        proof (cases ?pp)
          case (Inl e)
          let ?st1 = "st\<lparr>ss_sock := sk, ss_session := add_transferred ?c (ss_session st)\<rparr>"
          have res: "send_file_loop cb nm fsz unread n st = (Some e, ?st1)"
            using lt ne sa' True Inl by (subst send_file_loop.simps) simp
          have one: "sent_step st ?c ?st1" using sock by (intro sent_step_one) simp_all
          have g1: "?c \<le> length unread" by simp
          have g2: "sent_step st ?c (snd (send_file_loop cb nm fsz unread n st))"
            by (simp only: res snd_conv one)
          have g3: "\<not> cb \<longrightarrow> \<not> closed (ss_sock st) \<longrightarrow> send_limit (ss_sock st) = None \<longrightarrow>
            fst (send_file_loop cb nm fsz unread n st) = None"
            using True by simp
          show ?thesis by (rule exI [of _ ?c]) (intro conjI g1 g2 g3)
        next
          case (Inr p)
          let ?st1 = "st\<lparr>ss_sock := sk, ss_session := add_transferred ?c (ss_session st),
                         ss_progress := ss_progress st @ [(p, ''Sending '' @ nm)]\<rparr>"
          have res: "send_file_loop cb nm fsz unread n st =
                       send_file_loop cb nm fsz (drop 8192 unread) (n + ?c) ?st1"
            using lt ne sa' True Inr by (subst send_file_loop.simps) simp
          from 1(1) [OF lt ne sa' [symmetric] refl True Inr]
          obtain k where kk: "k \<le> length (drop 8192 unread) \<and>
            sent_step ?st1 k (snd (send_file_loop cb nm fsz (drop 8192 unread) (n + ?c) ?st1)) \<and>
            (\<not> cb \<longrightarrow> \<not> closed (ss_sock ?st1) \<longrightarrow> send_limit (ss_sock ?st1) = None \<longrightarrow>
               fst (send_file_loop cb nm fsz (drop 8192 unread) (n + ?c) ?st1) = None)" ..
          note k = kk [THEN conjunct1] kk [THEN conjunct2, THEN conjunct1]
          have one: "sent_step st ?c ?st1" using sock Inr by (intro sent_step_one) auto
          have g1: "?c + k \<le> length unread" using k(1) split by linarith
          have g2: "sent_step st (?c + k) (snd (send_file_loop cb nm fsz unread n st))"
            by (simp only: res) (rule sent_step_trans [OF one k(2)])
          have g3: "\<not> cb \<longrightarrow> \<not> closed (ss_sock st) \<longrightarrow> send_limit (ss_sock st) = None \<longrightarrow>
            fst (send_file_loop cb nm fsz unread n st) = None"
            using True by simp
          show ?thesis by (rule exI [of _ "?c + k"]) (intro conjI g1 g2 g3)
        qed
      qed
    qed
  qed
qed


lemma open_rb_size: "open_rb fs p = Inr bs \<Longrightarrow> length bs = st_size fs p"
  by (auto simp: open_rb_def st_size_def split: option.splits if_splits)

lemma send_files_loop_inv:
  "\<exists>k. k \<le> sum_list (map (\<lambda>e. st_size fs (m_path (snd e))) md) \<and>
       sent_step st k (snd (send_files_loop cb fs md st)) \<and>
       (\<not> cb \<longrightarrow> \<not> closed (ss_sock st) \<longrightarrow> send_limit (ss_sock st) = None \<longrightarrow>
        (\<forall>e\<in>set md. \<exists>bs. open_rb fs (m_path (snd e)) = Inr bs) \<longrightarrow>
          fst (send_files_loop cb fs md st) = None)"
proof (induction md arbitrary: st)
  case Nil
  show ?case using sent_step_refl [of st] by (intro exI [of _ 0]) simp
next
  case (Cons x rest)
  obtain file_id info where x: "x = (file_id, info)" by (cases x)
  let ?sum = "sum_list (map (\<lambda>e. st_size fs (m_path (snd e))) (x # rest))"
  let ?T = "transferred_size (ss_session st)"
  let ?pre = "if cb then
              (case progress_pct ?T (total_size (ss_session st)) of
                 Inl e \<Rightarrow> Inl e
               | Inr pct \<Rightarrow> Inr (st\<lparr>ss_progress := ss_progress st @ [(pct, ''Sending '' @ m_name info)]\<rparr>))
            else Inr st"
  have g3triv: "cb \<Longrightarrow> \<not> cb \<longrightarrow> \<not> closed (ss_sock st) \<longrightarrow> send_limit (ss_sock st) = None \<longrightarrow>
        (\<forall>e\<in>set (x # rest). \<exists>bs. open_rb fs (m_path (snd e)) = Inr bs) \<longrightarrow>
          fst (send_files_loop cb fs (x # rest) st) = None" by simp
  show ?case
  proof (cases ?pre)
    case (Inl e)
    then have cb: cb by (auto split: if_splits)
    have res: "send_files_loop cb fs (x # rest) st = (Some e, st)"
      using Inl by (simp add: x)
    have g2: "sent_step st 0 (snd (send_files_loop cb fs (x # rest) st))"
      by (simp only: res snd_conv sent_step_refl)
    show ?thesis by (rule exI [of _ 0]) (intro conjI g2 g3triv [OF cb], simp)
  next
    case (Inr st1)
    have s01: "sent_step st 0 st1"
    proof (cases cb)
      case False
      with Inr have "st1 = st" by simp
      then show ?thesis by (simp add: sent_step_refl)
    next
      case True
      with Inr obtain pct where p: "progress_pct ?T (total_size (ss_session st)) = Inr pct"
        and s: "st1 = st\<lparr>ss_progress := ss_progress st @ [(pct, ''Sending '' @ m_name info)]\<rparr>"
        by (auto split: sum.splits)
      show ?thesis unfolding s using p by (intro sent_step_one) (auto simp: add_transferred_0)
    qed
    have sock1: "closed (ss_sock st1) = closed (ss_sock st)" "send_limit (ss_sock st1) = send_limit (ss_sock st)"
      using s01 by (simp_all add: sent_step_def)
    show ?thesis
    proof (cases "open_rb fs (m_path info)")
      case (Inl e)
      have res: "send_files_loop cb fs (x # rest) st = (Some e, st1)"
        using Inr Inl by (simp add: x)
      have g2: "sent_step st 0 (snd (send_files_loop cb fs (x # rest) st))"
        by (simp only: res snd_conv s01)
      have g3: "\<not> cb \<longrightarrow> \<not> closed (ss_sock st) \<longrightarrow> send_limit (ss_sock st) = None \<longrightarrow>
        (\<forall>e\<in>set (x # rest). \<exists>bs. open_rb fs (m_path (snd e)) = Inr bs) \<longrightarrow>
          fst (send_files_loop cb fs (x # rest) st) = None"
        using Inl by (simp add: x)
      show ?thesis by (rule exI [of _ 0]) (intro conjI g2 g3, simp)
    next
      case op: (Inr bs)
      note sz = open_rb_size [OF op]
      obtain r st2 where inner: "send_file_loop cb (m_name info) (m_size info) bs 0 st1 = (r, st2)"
        by (cases "send_file_loop cb (m_name info) (m_size info) bs 0 st1")
      from send_file_loop_inv [of bs st1 cb "m_name info" "m_size info" 0]
      obtain k1 where kk1: "k1 \<le> length bs \<and>
          sent_step st1 k1 (snd (send_file_loop cb (m_name info) (m_size info) bs 0 st1)) \<and>
          (\<not> cb \<longrightarrow> \<not> closed (ss_sock st1) \<longrightarrow> send_limit (ss_sock st1) = None \<longrightarrow>
             fst (send_file_loop cb (m_name info) (m_size info) bs 0 st1) = None)" ..
      have k1: "k1 \<le> st_size fs (m_path info)" using kk1 sz by simp
      have s12: "sent_step st1 k1 st2" using kk1 inner by simp
      have s02: "sent_step st k1 st2" using sent_step_trans [OF s01 s12] by simp
      have sock2: "closed (ss_sock st2) = closed (ss_sock st)" "send_limit (ss_sock st2) = send_limit (ss_sock st)"
        using s02 by (simp_all add: sent_step_def)
      show ?thesis
      proof (cases r)
        case (Some e)
        have res: "send_files_loop cb fs (x # rest) st = (Some e, st2)"
          using Inr op inner Some by (simp add: x)
        have g1: "k1 \<le> ?sum" using k1 by (simp add: x)
        have g2: "sent_step st k1 (snd (send_files_loop cb fs (x # rest) st))"
          by (simp only: res snd_conv s02)
        have g3: "\<not> cb \<longrightarrow> \<not> closed (ss_sock st) \<longrightarrow> send_limit (ss_sock st) = None \<longrightarrow>
          (\<forall>e\<in>set (x # rest). \<exists>bs. open_rb fs (m_path (snd e)) = Inr bs) \<longrightarrow>
          fst (send_files_loop cb fs (x # rest) st) = None"
        proof (intro impI)
          assume a: "\<not> cb" "\<not> closed (ss_sock st)" "send_limit (ss_sock st) = None"
          have "fst (send_file_loop cb (m_name info) (m_size info) bs 0 st1) = None"
            using kk1 a sock1 by simp
          with inner Some show "fst (send_files_loop cb fs (x # rest) st) = None" by simp
        qed
        show ?thesis by (rule exI [of _ k1]) (intro conjI g1 g2 g3)
      next
        case None
        have res: "send_files_loop cb fs (x # rest) st = send_files_loop cb fs rest st2"
          using Inr op inner None by (simp add: x)
        from Cons.IH [of st2]
        obtain k2 where kk2: "k2 \<le> sum_list (map (\<lambda>e. st_size fs (m_path (snd e))) rest) \<and>
           sent_step st2 k2 (snd (send_files_loop cb fs rest st2)) \<and>
           (\<not> cb \<longrightarrow> \<not> closed (ss_sock st2) \<longrightarrow> send_limit (ss_sock st2) = None \<longrightarrow>
            (\<forall>e\<in>set rest. \<exists>bs. open_rb fs (m_path (snd e)) = Inr bs) \<longrightarrow>
              fst (send_files_loop cb fs rest st2) = None)" ..
        have g1: "k1 + k2 \<le> ?sum" using k1 kk2 by (simp add: x)
        have g2: "sent_step st (k1 + k2) (snd (send_files_loop cb fs (x # rest) st))"
          by (simp only: res) (rule sent_step_trans [OF s02 kk2 [THEN conjunct2, THEN conjunct1]])
        have g3: "\<not> cb \<longrightarrow> \<not> closed (ss_sock st) \<longrightarrow> send_limit (ss_sock st) = None \<longrightarrow>
          (\<forall>e\<in>set (x # rest). \<exists>bs. open_rb fs (m_path (snd e)) = Inr bs) \<longrightarrow>
          fst (send_files_loop cb fs (x # rest) st) = None"
        proof (intro impI)
          assume a: "\<not> cb" "\<not> closed (ss_sock st)" "send_limit (ss_sock st) = None"
            and b: "\<forall>e\<in>set (x # rest). \<exists>bs. open_rb fs (m_path (snd e)) = Inr bs"
          have "\<not> closed (ss_sock st2)" "send_limit (ss_sock st2) = None" using a sock2 by simp_all
          moreover have "\<forall>e\<in>set rest. \<exists>bs. open_rb fs (m_path (snd e)) = Inr bs" using b by simp
          ultimately have "fst (send_files_loop cb fs rest st2) = None"
            using kk2 a(1) by blast
          then show "fst (send_files_loop cb fs (x # rest) st) = None" by (simp only: res)
        qed
        show ?thesis by (rule exI [of _ "k1 + k2"]) (intro conjI g1 g2 g3)
      qed
    qed
  qed
qed

lemma send_files_loop_zero_total:
  assumes "md \<noteq> []" "total_size (ss_session st) = 0"
  shows "send_files_loop True fs md st = (Some ZeroDivisionError, st)"
proof -
  obtain file_id info rest where "md = (file_id, info) # rest"
    using assms(1) by (cases md) auto
  then show ?thesis using assms(2) by (simp add: progress_pct_def)
qed

lemma basename_examples:
  "basename ''/data/empty.txt'' = ''empty.txt''" "basename ''/data/c.txt'' = ''c.txt''"
  by (simp_all add: basename_def)

lemma lib01_md5: "md5_hexdigest lib01 = md5_known"
  by (simp add: lib01_def lib_known_def)

lemma M_empty_session: "sessions M_empty ''jt01'' = Some session_empty"
  by (simp add: M_empty_def create_session_def TransferSession_init_def path_exists_def
        os_stat_size_def st_size_def fs2_def file_id_of_def encode_utf8_def encodable_def
        lib01_md5 md5_known_def encode_def
        basename_examples calculate_file_checksum_def open_rb_def read_chunks.simps
        logger_def session_empty_def)




lemma send_files_direct_ok:
  assumes "bind_ok env" "accept_peer env = Some client" "\<not> closed client" "send_limit client = None"
    and "length (json_dumps L (session_metadata session)) < 2 ^ 32"
    and "\<forall>e\<in>set (file_metadata session). \<exists>bs. open_rb fs (m_path (snd e)) = Inr bs"
  shows "returned (send_files_direct L fs env session False) = True"
proof -
  from send_json_writes [OF assms(3,4,5)]
  obtain pre where sj: "send_json L client (session_metadata session) =
     (None, client\<lparr>sent := sent client @ pre @ encode (json_dumps L (session_metadata session))\<rparr>)"
    by blast
  let ?sk = "client\<lparr>sent := sent client @ pre @ encode (json_dumps L (session_metadata session))\<rparr>"
  let ?st0 = "\<lparr>ss_session = session, ss_sock = ?sk, ss_progress = []\<rparr>"
  from send_files_loop_inv [of fs "file_metadata session" ?st0 False]
  have "fst (send_files_loop False fs (file_metadata session) ?st0) = None"
    using assms(3,4,6) by auto
  then obtain st where "send_files_loop False fs (file_metadata session) ?st0 = (None, st)"
    by (cases "send_files_loop False fs (file_metadata session) ?st0") simp
  then show ?thesis using assms(1,2) sj by (simp add: send_files_direct_def)
qed

lemma send_files_direct_zero_total:
  assumes "file_metadata session \<noteq> []" "total_size session = 0"
  shows "returned (send_files_direct L fs env session True) = False"
proof -
  have "\<And>sk. send_files_loop True fs (file_metadata session)
          \<lparr>ss_session = session, ss_sock = sk, ss_progress = []\<rparr> =
        (Some ZeroDivisionError, \<lparr>ss_session = session, ss_sock = sk, ss_progress = []\<rparr>)"
    by (rule send_files_loop_zero_total) (simp_all add: assms)
  then show ?thesis
    by (simp add: send_files_direct_def send_failed_def split: option.splits prod.splits)
qed

text \<open>
  Claim C10. Let the session be registered, with a non-empty \<open>file_metadata\<close> and
  \<open>total_size = 0\<close>. With a progress callback \<open>send_files\<close> returns \<open>False\<close> in every
  surrounding. Where \<open>bind\<close> succeeds, a peer connects and accepts everything, the
  metadata fits the frame and every file of the session can be opened, the call without
  a callback returns \<open>True\<close>, and the call with a callback fails with
  \<open>ZeroDivisionError\<close> at the first progress computation: the metadata frame has been
  sent, no file byte has, and the callback was never called.
\<close>

theorem send_files_zero_total_size:
  assumes reg: "sessions M sid = Some session"
    and ne: "file_metadata session \<noteq> []" and z: "total_size session = 0"
  shows "fst (send_files L webrtc fs env M sid True) = False \<and>
         (\<forall>client. bind_ok env \<longrightarrow> accept_peer env = Some client \<longrightarrow> \<not> closed client \<longrightarrow>
            send_limit client = None \<longrightarrow>
            length (json_dumps L (session_metadata session)) < 2 ^ 32 \<longrightarrow>
            (\<forall>e\<in>set (file_metadata session). \<exists>bs. open_rb fs (m_path (snd e)) = Inr bs) \<longrightarrow>
            fst (send_files L webrtc fs env M sid False) = True \<and>
            snd (snd (send_files L webrtc fs env M sid True)) =
              Some (send_failed ZeroDivisionError session
                      (snd (send_json L client (session_metadata session))) []))"
proof -
  have a: "fst (send_files L webrtc fs env M sid True) = False"
    using reg send_files_direct_zero_total [OF ne z, of L fs env]
    by (simp add: send_files_def send_files_webrtc_def Let_def)
  have b: "fst (send_files L webrtc fs env M sid False) = True \<and>
            snd (snd (send_files L webrtc fs env M sid True)) =
              Some (send_failed ZeroDivisionError session
                      (snd (send_json L client (session_metadata session))) [])"
    if c: "bind_ok env" "accept_peer env = Some client" "\<not> closed client" "send_limit client = None"
      "length (json_dumps L (session_metadata session)) < 2 ^ 32"
      "\<forall>e\<in>set (file_metadata session). \<exists>bs. open_rb fs (m_path (snd e)) = Inr bs"
    for client
  proof -
    have ok: "fst (send_files L webrtc fs env M sid False) = True"
      using reg send_files_direct_ok [OF c]
      by (simp add: send_files_def send_files_webrtc_def Let_def)
    from send_json_writes [OF c(3,4,5)]
    obtain pre where sj: "send_json L client (session_metadata session) =
     (None, client\<lparr>sent := sent client @ pre @ encode (json_dumps L (session_metadata session))\<rparr>)"
      by blast
    have lz: "\<And>sk. send_files_loop True fs (file_metadata session)
          \<lparr>ss_session = session, ss_sock = sk, ss_progress = []\<rparr> =
        (Some ZeroDivisionError, \<lparr>ss_session = session, ss_sock = sk, ss_progress = []\<rparr>)"
      by (rule send_files_loop_zero_total) (simp_all add: ne z)
    have "send_files_direct L fs env session True =
            send_failed ZeroDivisionError session
                      (snd (send_json L client (session_metadata session))) []"
      using c(1,2) by (simp add: send_files_direct_def sj lz)
    then have "snd (snd (send_files L webrtc fs env M sid True)) =
              Some (send_failed ZeroDivisionError session
                      (snd (send_json L client (session_metadata session))) [])"
      using reg by (simp add: send_files_def send_files_webrtc_def Let_def)
    with ok show ?thesis by simp
  qed
  show ?thesis using a b by blast
qed


lemma dumps_session_bound:
  "length (json_dumps lib01 (session_metadata session_empty)) < 2 ^ 32"
  "length (json_dumps lib01 (session_metadata session_abc)) < 2 ^ 32"
  by (simp_all add: lib01_dumps session_metadata_def info_json_def session_empty_def
        session_abc_def quoted_simp str_nat.simps digit_char_def)

lemma env_ok_fields: "bind_ok env_ok" "accept_peer env_ok = Some (fresh_sock [] False)"
  "\<not> closed (fresh_sock segs pc)" "send_limit (fresh_sock segs pc) = None"
  by (simp_all add: env_ok_def fresh_sock_def)

theorem send_files_zero_total_size_witness:
  "sessions M_empty ''jt01'' = Some session_empty \<and> file_metadata session_empty \<noteq> [] \<and>
   total_size session_empty = 0 \<and>
   fst (send_files lib01 False fs2 env_ok M_empty ''jt01'' True) = False \<and>
   fst (send_files lib01 False fs2 env_ok M_empty ''jt01'' False) = True"
proof -
  have ne: "file_metadata session_empty \<noteq> []" and z: "total_size session_empty = 0"
    by (simp_all add: session_empty_def)
  have rd: "\<forall>e\<in>set (file_metadata session_empty). \<exists>bs. open_rb fs2 (m_path (snd e)) = Inr bs"
    by (simp add: session_empty_def open_rb_def fs2_def)
  from send_files_zero_total_size [OF M_empty_session ne z,
         where L = lib01 and webrtc = False and fs = fs2 and env = env_ok]
  have "fst (send_files lib01 False fs2 env_ok M_empty ''jt01'' True) = False"
    and "fst (send_files lib01 False fs2 env_ok M_empty ''jt01'' False) = True"
    using env_ok_fields dumps_session_bound(1) rd by auto
  then show ?thesis using M_empty_session ne z by simp
qed

section \<open>The count of transferred bytes\<close>










end
